theory Spec2Isabelle
  imports Complex_Main "HOL-Library.Sublist"
begin

section \<open>Local key-value accessor (src/composables/indexedDB.ts)\<close>

subsection \<open>JavaScript values held in the browser's structured storage\<close>

text \<open>
  A JavaScript \<open>number\<close> is a double. The source only ever stores a number, reads
  it back and tests it with \<open>||\<close>, so the model keeps the classes of values that the
  truthiness test tells apart: the three special values, the negative zero, and the finite
  values (every finite double is a rational; \<open>Finite 0\<close> is the positive zero).
\<close>

datatype number = NaN | PosInfinity | NegInfinity | NegZero | Finite rat

datatype jsval =
    Undefined
  | Null
  | Bool bool
  | Num number
  | Str string
  | Arr "jsval list"
  | Obj "(string \<times> jsval) list"

text \<open>
  What the source can throw or reject with. \<open>Error m\<close> is \<open>Error(m)\<close> with its
  message; \<open>NotFoundError\<close>, \<open>VersionError\<close> and \<open>ConstraintError\<close> are the
  platform's \<open>DOMException\<close>s and \<open>TypeError\<close> is the language's own;
  \<open>PlatformError m\<close> is any other failure that the platform or a collaborator reports.
  All of these are instances of \<open>Error\<close>. \<open>Thrown v\<close> is a rejection with a value
  that is not an \<open>Error\<close>, and \<open>StringifiedError v\<close> stands for
  \<open>new Error(JSON.stringify(v))\<close>.
\<close>

datatype error =
    Error string
  | TypeError
  | NotFoundError
  | VersionError
  | ConstraintError
  | PlatformError string
  | Thrown jsval
  | StringifiedError jsval

fun instanceofError :: "error \<Rightarrow> bool" where
  "instanceofError (Thrown v) = False"
| "instanceofError e = True"

text \<open>JavaScript truthiness: \<open>v || d\<close> is \<open>v\<close> when \<open>v\<close> is truthy and \<open>d\<close> otherwise.\<close>

fun truthy :: "jsval \<Rightarrow> bool" where
  "truthy Undefined = False"
| "truthy Null = False"
| "truthy (Bool b) = b"
| "truthy (Num NaN) = False"
| "truthy (Num NegZero) = False"
| "truthy (Num (Finite q)) = (q \<noteq> 0)"
| "truthy (Num n) = True"
| "truthy (Str s) = (s \<noteq> [])"
| "truthy (Arr xs) = True"
| "truthy (Obj fs) = True"

definition js_or :: "jsval \<Rightarrow> jsval \<Rightarrow> jsval" where
  "js_or v d = (if truthy v then v else d)"

text \<open>
  Reading a property \<open>v.name\<close>. On \<open>undefined\<close> and \<open>null\<close> it throws a
  \<open>TypeError\<close>; on an object it is the field or \<open>undefined\<close>. The names the source
  reads (\<open>fbase_key\<close>, \<open>value\<close>, \<open>stsTokenManager\<close>, \<open>accessToken\<close>,
  \<open>uid\<close>) are defined on no primitive and on no array, so there it is \<open>undefined\<close>.
\<close>

fun getProp :: "jsval \<Rightarrow> string \<Rightarrow> error + jsval" where
  "getProp Undefined name = Inl TypeError"
| "getProp Null name = Inl TypeError"
| "getProp (Obj fs) name = (case map_of fs name of Some v \<Rightarrow> Inr v | None \<Rightarrow> Inr Undefined)"
| "getProp v name = Inr Undefined"

text \<open>
  The call \<open>k.includes(marker)\<close> with a string argument: a substring test on a string,
  a membership test on an array, and a \<open>TypeError\<close> on everything else (on
  \<open>undefined\<close> and \<open>null\<close> the property read throws, on the other values
  \<open>includes\<close> is not a function; structured storage holds no functions).
\<close>

fun js_includes :: "jsval \<Rightarrow> string \<Rightarrow> error + bool" where
  "js_includes (Str s) marker = Inr (sublist marker s)"
| "js_includes (Arr xs) marker = Inr (Str marker \<in> set xs)"
| "js_includes v marker = Inl TypeError"

subsection \<open>Databases and object stores\<close>

text \<open>
  An object store is the list of its records, key and value, in the order in which
  \<open>getAll\<close> returns them. \<open>put\<close> replaces the record under the key or adds one; the
  source writes only the store \<open>userInfo\<close> and calls \<open>getAll\<close> only on the
  identity SDK's store, so the position of an added record is never observed.
\<close>

type_synonym object_store = "(string \<times> jsval) list"

record database =
  version :: nat
  stores :: "string \<rightharpoonup> object_store"

text \<open>
  The browser's storage: the databases by name, and the names that the platform refuses to
  open together with the error it rejects with.
\<close>

record idb =
  databases :: "string \<rightharpoonup> database"
  refused :: "string \<rightharpoonup> error"

definition FIREBASE_DB_NAME :: string where
  "FIREBASE_DB_NAME = ''firebaseLocalStorageDb''"

definition USER_DB_NAME :: string where
  "USER_DB_NAME = ''userLocalStorageDb''"

definition createObjectStore :: "string \<Rightarrow> database \<Rightarrow> error + database" where
  "createObjectStore name db =
     (case stores db name of
        Some st \<Rightarrow> Inl ConstraintError
      | None \<Rightarrow> Inr (db\<lparr>stores := (stores db)(name \<mapsto> [])\<rparr>))"

text \<open>
  Modelled from the spec: \<open>openDB\<close> of the storage wrapper
  (\<open>@/pluginWrappers/idb\<close>), whose code is not among the sources. The spec has the
  upgrade callback invoked only the first time a store is opened, or when its schema
  version increases, and has the open resolve with a handle or reject with the platform's
  error. So \<open>openDB(name, v, {upgrade})\<close> creates a database that does not exist at
  version \<open>v\<close> and runs \<open>upgrade\<close> on it; so it does when the stored version is
  lower; a higher stored version is the platform's \<open>VersionError\<close>. Without an
  \<open>upgrade\<close> callback the database is created or upgraded with its stores unchanged.
\<close>

definition openDB ::
  "string \<Rightarrow> nat \<Rightarrow> (database \<Rightarrow> error + database) option \<Rightarrow> idb \<Rightarrow> (error + database) \<times> idb"
where
  "openDB name v upgrade s =
     (case refused s name of
        Some e \<Rightarrow> (Inl e, s)
      | None \<Rightarrow>
          (let old = (case databases s name of
                        Some db \<Rightarrow> db
                      | None \<Rightarrow> \<lparr>version = 0, stores = Map.empty\<rparr>)
           in if v < version old then (Inl VersionError, s)
              else if version old = v then (Inr old, s)
              else (case (case upgrade of
                            None \<Rightarrow> Inr (old\<lparr>version := v\<rparr>)
                          | Some f \<Rightarrow> f (old\<lparr>version := v\<rparr>)) of
                      Inl e \<Rightarrow> (Inl e, s)
                    | Inr db \<Rightarrow> (Inr db, s\<lparr>databases := (databases s)(name \<mapsto> db)\<rparr>))))"

definition getDBPromise ::
  "string \<Rightarrow> (database \<Rightarrow> error + database) option \<Rightarrow> idb \<Rightarrow> (error + database) \<times> idb"
where
  "getDBPromise dbName options s = openDB dbName 1 options s"

definition getFirebaseDB :: "idb \<Rightarrow> (error + database) \<times> idb" where
  "getFirebaseDB s = getDBPromise FIREBASE_DB_NAME None s"

definition getUserDB :: "idb \<Rightarrow> (error + database) \<times> idb" where
  "getUserDB s = getDBPromise USER_DB_NAME (Some (createObjectStore ''userInfo'')) s"

definition getAll :: "database \<Rightarrow> string \<Rightarrow> error + jsval list" where
  "getAll db storeName =
     (case stores db storeName of
        None \<Rightarrow> Inl NotFoundError
      | Some st \<Rightarrow> Inr (map snd st))"

definition get_rec :: "database \<Rightarrow> string \<Rightarrow> string \<Rightarrow> error + jsval" where
  "get_rec db storeName key =
     (case stores db storeName of
        None \<Rightarrow> Inl NotFoundError
      | Some st \<Rightarrow> Inr (case map_of st key of Some v \<Rightarrow> v | None \<Rightarrow> Undefined))"

fun put_store :: "object_store \<Rightarrow> jsval \<Rightarrow> string \<Rightarrow> object_store" where
  "put_store [] v key = [(key, v)]"
| "put_store ((k, w) # st) v key =
     (if k = key then (key, v) # st else (k, w) # put_store st v key)"

definition put_rec :: "string \<Rightarrow> database \<Rightarrow> string \<Rightarrow> jsval \<Rightarrow> string \<Rightarrow> idb \<Rightarrow> (error + unit) \<times> idb" where
  "put_rec dbName db storeName v key s =
     (case stores db storeName of
        None \<Rightarrow> (Inl NotFoundError, s)
      | Some st \<Rightarrow>
          (Inr (),
           s\<lparr>databases :=
               (databases s)(dbName \<mapsto> db\<lparr>stores := (stores db)(storeName \<mapsto> put_store st v key)\<rparr>)\<rparr>))"

subsection \<open>readCreds\<close>

record ReadCreds =
  token :: jsval
  uid :: jsval

text \<open>
  \<open>allRows.filter((obj) => obj.fbase_key.includes("firebase:authUser"))\<close>: the callback
  runs on every row in order, and the first row on which it throws ends the filter.
\<close>

fun filterRows :: "jsval list \<Rightarrow> error + jsval list" where
  "filterRows [] = Inr []"
| "filterRows (obj # rest) =
     (case getProp obj ''fbase_key'' of
        Inl e \<Rightarrow> Inl e
      | Inr k \<Rightarrow>
          (case js_includes k ''firebase:authUser'' of
             Inl e \<Rightarrow> Inl e
           | Inr b \<Rightarrow>
               (case filterRows rest of
                  Inl e \<Rightarrow> Inl e
                | Inr rows \<Rightarrow> Inr (if b then obj # rows else rows))))"

text \<open>The body of the \<open>try\<close> block.\<close>

definition readCreds_try :: "idb \<Rightarrow> (error + ReadCreds) \<times> idb" where
  "readCreds_try s =
     (case getFirebaseDB s of
        (Inl e, s1) \<Rightarrow> (Inl e, s1)
      | (Inr db, s1) \<Rightarrow>
          (case getAll db ''firebaseLocalStorage'' of
             Inl e \<Rightarrow> (Inl e, s1)
           | Inr allRows \<Rightarrow>
               (case filterRows allRows of
                  Inl e \<Rightarrow> (Inl e, s1)
                | Inr filteredRows \<Rightarrow>
                    (case filteredRows of
                       [] \<Rightarrow> (Inr \<lparr>token = Str [], uid = Str []\<rparr>, s1)
                     | row # others \<Rightarrow>
                         (case getProp row ''value'' of
                            Inl e \<Rightarrow> (Inl e, s1)
                          | Inr val \<Rightarrow>
                              (case getProp val ''stsTokenManager'' of
                                 Inl e \<Rightarrow> (Inl e, s1)
                               | Inr mgr \<Rightarrow>
                                   (case getProp mgr ''accessToken'' of
                                      Inl e \<Rightarrow> (Inl e, s1)
                                    | Inr tok \<Rightarrow>
                                        (case getProp val ''uid'' of
                                           Inl e \<Rightarrow> (Inl e, s1)
                                         | Inr u \<Rightarrow> (Inr \<lparr>token = tok, uid = u\<rparr>, s1)))))))))"

text \<open>
  The \<open>catch\<close> block: an \<open>Error\<close> is thrown again as it is, anything else is wrapped.
\<close>

definition readCreds :: "idb \<Rightarrow> (error + ReadCreds) \<times> idb" where
  "readCreds s =
     (case readCreds_try s of
        (Inl e, s1) \<Rightarrow>
          (if instanceofError e then (Inl e, s1)
           else (Inl (StringifiedError (case e of Thrown v \<Rightarrow> v | _ \<Rightarrow> Undefined)), s1))
      | (Inr c, s1) \<Rightarrow> (Inr c, s1))"

subsection \<open>storeKarma and readKarma\<close>

definition storeKarma :: "number \<Rightarrow> idb \<Rightarrow> (error + unit) \<times> idb" where
  "storeKarma karma s =
     (case getUserDB s of
        (Inl e, s1) \<Rightarrow> (Inl e, s1)
      | (Inr db, s1) \<Rightarrow> put_rec USER_DB_NAME db ''userInfo'' (Num karma) ''karma'' s1)"

definition readKarma :: "idb \<Rightarrow> (error + jsval) \<times> idb" where
  "readKarma s =
     (case getUserDB s of
        (Inl e, s1) \<Rightarrow> (Inl e, s1)
      | (Inr db, s1) \<Rightarrow>
          (case get_rec db ''userInfo'' ''karma'' of
             Inl e \<Rightarrow> (Inl e, s1)
           | Inr karma \<Rightarrow> (Inr (js_or karma (Num (Finite 0))), s1)))"

text \<open>
  A storage in which no \<open>storeKarma\<close> has run: the application's database is absent,
  or it is the one that \<open>getUserDB\<close> creates and holds no record under \<open>karma\<close>.
\<close>

definition karma_unset :: "idb \<Rightarrow> bool" where
  "karma_unset s =
     (case databases s USER_DB_NAME of
        None \<Rightarrow> True
      | Some db \<Rightarrow>
          version db = 1 \<and>
          (case stores db ''userInfo'' of
             None \<Rightarrow> False
           | Some st \<Rightarrow> map_of st ''karma'' = None))"

definition fresh_idb :: idb where
  "fresh_idb = \<lparr>databases = Map.empty, refused = Map.empty\<rparr>"

text \<open>
  The rows of the identity SDK's credential store as \<open>readCreds\<close> finds them, when the
  database is there at schema version 1 with its record collection.
\<close>

definition credRows :: "idb \<Rightarrow> jsval list option" where
  "credRows s =
     (case refused s FIREBASE_DB_NAME of
        Some e \<Rightarrow> None
      | None \<Rightarrow>
          (case databases s FIREBASE_DB_NAME of
             None \<Rightarrow> None
           | Some db \<Rightarrow>
               (if version db = 1
                then map_option (map snd) (stores db ''firebaseLocalStorage'')
                else None)))"

text \<open>A record whose key field is a string, as the schema declares it.\<close>

definition stringKeyed :: "jsval \<Rightarrow> bool" where
  "stringKeyed row = (case getProp row ''fbase_key'' of Inr (Str k) \<Rightarrow> True | _ \<Rightarrow> False)"

text \<open>A record whose key field contains the auth-user marker.\<close>

definition isAuthUser :: "jsval \<Rightarrow> bool" where
  "isAuthUser row =
     (case getProp row ''fbase_key'' of
        Inr (Str k) \<Rightarrow> sublist ''firebase:authUser'' k
      | _ \<Rightarrow> False)"

text \<open>
  The record's nested credentials: \<open>row.value.stsTokenManager.accessToken\<close> is
  \<open>tok\<close> and \<open>row.value.uid\<close> is \<open>u\<close>.
\<close>

definition credsOf :: "jsval \<Rightarrow> jsval \<Rightarrow> jsval \<Rightarrow> bool" where
  "credsOf row tok u =
     (case getProp row ''value'' of
        Inr val \<Rightarrow>
          getProp val ''uid'' = Inr u \<and>
          (case getProp val ''stsTokenManager'' of
             Inr mgr \<Rightarrow> getProp mgr ''accessToken'' = Inr tok
           | Inl e \<Rightarrow> False)
      | Inl e \<Rightarrow> False)"

definition cred_example :: idb where
  "cred_example =
     \<lparr>databases = [FIREBASE_DB_NAME \<mapsto>
        \<lparr>version = 1,
         stores = [''firebaseLocalStorage'' \<mapsto>
           [(''firebase:authUser:key:[DEFAULT]'',
               Obj [(''fbase_key'', Str ''firebase:authUser:key:[DEFAULT]''),
                    (''value'', Obj [(''uid'', Str ''u1''),
                                     (''stsTokenManager'', Obj [(''accessToken'', Str ''t1'')])])]),
            (''firebase:host:app'',
               Obj [(''fbase_key'', Str ''firebase:host:app''), (''value'', Str ''x'')])]]\<rparr>],
      refused = Map.empty\<rparr>"

definition empty_cred_example :: idb where
  "empty_cred_example =
     \<lparr>databases = [FIREBASE_DB_NAME \<mapsto>
        \<lparr>version = 1, stores = [''firebaseLocalStorage'' \<mapsto> []]\<rparr>],
      refused = Map.empty\<rparr>"

section \<open>Deferred module loader (src/unnamed/part_000)\<close>

subsection \<open>Configuration, values and promises\<close>

text \<open>
  The eight values handed to the identity SDK, and the public runtime configuration of
  \<open>nuxt.config.ts\<close> that extends them with the title and the OAuth client id.
\<close>

record firebaseConfig =
  apiKey :: string
  authDomain :: string
  databaseURL :: string
  projectId :: string
  storageBucket :: string
  messagingSenderId :: string
  appId :: string
  measurementId :: string

record publicConfig = firebaseConfig +
  title :: string
  googleClientId :: string

datatype user = User string

datatype AuthProvider = GoogleAuthProvider | FacebookAuthProvider | GithubAuthProvider

datatype OAuthCredential = Credential AuthProvider string

record logObject =
  description :: string
  fatal :: bool

text \<open>
  The values that the loader's promises carry: a module namespace by its specifier, the
  application handle, the pair of functions picked from the analytics module, the auth
  instance, a user or \<open>null\<close>, a provider, a credential, a string.
\<close>

datatype val =
    VUndefined
  | VNull
  | VModule string
  | VApp firebaseConfig
  | VAnalyticsModule
  | VAuth
  | VUser "user option"
  | VProvider AuthProvider
  | VCredential OAuthCredential
  | VString string

type_synonym pid = nat

datatype pstate = Pending | Fulfilled val | Rejected error

text \<open>
  Every piece of code of the source that runs later is a continuation: the rest of an
  \<open>async\<close> function after an \<open>await\<close>, or the callback of a \<open>then\<close> or
  \<open>catch\<close>. Each carries the promises it settles.
  \<^item> \<open>K_appImported p d\<close>: the \<open>then\<close> callback in \<open>initializeApp\<close>; \<open>p\<close> is the
    app promise and \<open>d\<close> the promise of the \<open>then\<close>.
  \<^item> \<open>K_loadFirebaseAuth_app r\<close>, \<open>K_loadFirebaseAuth_imported r\<close>:
    \<open>loadFirebaseAuth\<close> after its first and its second \<open>await\<close>.
  \<^item> \<open>K_resolveAnalytics_app p lp\<close>, \<open>K_resolveAnalytics_imported p lp\<close>: the listener
    of \<open>loadFirebaseAnalytics\<close> after its first and its second \<open>await\<close>; \<open>p\<close> is
    the analytics promise and \<open>lp\<close> the promise of the listener's own call.
  \<^item> \<open>K_getAuthModule r\<close>, \<open>K_getAnalyticsModule r\<close>: the two getters after the
    \<open>await\<close> in their first \<open>if\<close>.
  \<^item> \<open>K_resolveWith r\<close>: \<open>r\<close> takes the result of the promise it was resolved with.
  \<^item> \<open>K_getAuth r\<close>, \<open>K_getProvider r provider\<close>,
    \<open>K_getCredential r provider accessToken\<close>, \<open>K_getUserToken_module r\<close>: these
    functions after \<open>await getAuthModule()\<close>.
  \<^item> \<open>K_currentUser u d\<close>, \<open>K_subscribe u d\<close>: the two \<open>then\<close> callbacks of
    \<open>getCurrentUser\<close>.
  \<^item> \<open>K_getUserToken_idToken r\<close>: \<open>getUserToken\<close> after the \<open>await\<close> of the id
    token.
  \<^item> \<open>K_logEvent d logType logObj\<close>, \<open>K_catch c\<close>: the \<open>then\<close> and the
    \<open>catch\<close> callback of \<open>analyticsLogger\<close>.
\<close>

datatype kont =
    K_appImported pid pid
  | K_loadFirebaseAuth_imported pid
  | K_loadFirebaseAuth_app pid
  | K_resolveAnalytics_app pid pid
  | K_resolveAnalytics_imported pid pid
  | K_getAuthModule pid
  | K_getAnalyticsModule pid
  | K_resolveWith pid
  | K_getAuth pid
  | K_getProvider pid string
  | K_getCredential pid string string
  | K_currentUser pid pid
  | K_subscribe pid pid
  | K_getUserToken_module pid
  | K_getUserToken_idToken pid
  | K_logEvent pid string logObject
  | K_catch pid

datatype listener = L_resolveFirebase pid | L_resolveAnalytics pid

datatype log = DisplayConsole string string | ConsoleLog string error

datatype analytics_call = GetAnalytics | LogEvent string logObject

text \<open>
  Modelled from the spec: the application's user-state store (\<open>@/stores/user\<close>), whose
  code is not among the sources. The spec has it expose a current authentication flag, a
  cached user id and a cached token; these are the getters \<open>getAuthenticatedState\<close>,
  \<open>getUserId\<close> and \<open>getUserToken\<close> that the source reads.
\<close>

record user_store =
  authenticatedState :: bool
  userId :: string
  userToken :: string

text \<open>
  The state of the module and of what it talks to. The first four fields are the module's
  own variables (\<open>dataPromises\<close> and \<open>userLoaded\<close>). \<open>promises\<close>,
  \<open>reactions\<close> and \<open>microtasks\<close> are the promises created so far, the
  continuations waiting on a pending promise, and the queue of continuations ready to run.
  \<open>listeners\<close> is the event bus. The remaining fields are the collaborators: the
  dynamic imports begun, the applications initialised, the provider's current user and
  auth-state subscriptions, the id-token requests, the user store, the calls into the
  analytics module and the failure it is in, the diagnostic sink, the configuration and
  the execution mode.
\<close>

record loader =
  firebaseApp :: "pid option"
  authModule :: "pid option"
  analyticsModule :: "pid option"
  userLoaded :: bool
  promises :: "pstate list"
  reactions :: "(pid \<times> kont) list"
  microtasks :: "(kont \<times> pstate) list"
  listeners :: "(string \<times> listener \<times> bool) list"
  moduleImports :: "(string \<times> pid) list"
  apps :: "firebaseConfig list"
  currentUser :: "user option"
  subscriptions :: "pid list"
  subscribeCalls :: nat
  idTokenRequests :: "pid list"
  userStore :: user_store
  analyticsCalls :: "analytics_call list"
  analyticsFault :: "error option"
  console :: "log list"
  runtimeConfig :: publicConfig
  NODE_ENV :: string

definition pstate_of :: "loader \<Rightarrow> pid \<Rightarrow> pstate" where
  "pstate_of s p = (if p < length (promises s) then promises s ! p else Pending)"

definition newPromise :: "loader \<Rightarrow> pid \<times> loader" where
  "newPromise s = (length (promises s), s\<lparr>promises := promises s @ [Pending]\<rparr>)"

definition enqueue :: "kont \<Rightarrow> pstate \<Rightarrow> loader \<Rightarrow> loader" where
  "enqueue k r s = s\<lparr>microtasks := microtasks s @ [(k, r)]\<rparr>"

text \<open>
  \<open>p.then(k)\<close> and \<open>await p\<close>: the continuation waits while the promise is
  pending and is queued at once when it is settled.
\<close>

definition on_settled :: "pid \<Rightarrow> kont \<Rightarrow> loader \<Rightarrow> loader" where
  "on_settled p k s =
     (case pstate_of s p of
        Pending \<Rightarrow> s\<lparr>reactions := reactions s @ [(p, k)]\<rparr>
      | r \<Rightarrow> enqueue k r s)"

text \<open>
  \<open>await dataPromises.x\<close>: the slot is read when the \<open>await\<close> is reached, and
  awaiting \<open>null\<close> continues in the next microtask.
\<close>

definition await_slot :: "pid option \<Rightarrow> kont \<Rightarrow> loader \<Rightarrow> loader" where
  "await_slot slot k s =
     (case slot of
        None \<Rightarrow> enqueue k (Fulfilled VNull) s
      | Some p \<Rightarrow> on_settled p k s)"

text \<open>
  Settling a promise: a pending promise takes the result and its continuations are queued
  in the order in which they were registered; a settled promise ignores the call. A
  promise resolved with another promise takes that promise's result when it has one
  (\<open>K_resolveWith\<close>); the extra microtask turns that the language spends on this are
  not counted.
\<close>

definition settle :: "pid \<Rightarrow> pstate \<Rightarrow> loader \<Rightarrow> loader" where
  "settle p r s =
     (if p < length (promises s) \<and> promises s ! p = Pending then
        s\<lparr>promises := (promises s)[p := r],
          reactions := filter (\<lambda>(q, k). q \<noteq> p) (reactions s),
          microtasks := microtasks s @ map (\<lambda>(q, k). (k, r)) (filter (\<lambda>(q, k). q = p) (reactions s))\<rparr>
      else s)"

definition dyn_import :: "string \<Rightarrow> loader \<Rightarrow> pid \<times> loader" where
  "dyn_import specifier s =
     (let (ip, s1) = newPromise s in (ip, s1\<lparr>moduleImports := moduleImports s1 @ [(specifier, ip)]\<rparr>))"

text \<open>
  Modelled from the spec: the helper \<open>displayConsole\<close> (\<open>@/helpers/displayConsole\<close>),
  whose code is not among the sources; it is taken to write one line to the local
  diagnostic sink, the same sink that \<open>console.log\<close> writes to.
\<close>

definition displayConsole :: "string \<Rightarrow> string \<Rightarrow> loader \<Rightarrow> loader" where
  "displayConsole msg origin s = s\<lparr>console := console s @ [DisplayConsole msg origin]\<rparr>"

subsection \<open>The event bus\<close>

text \<open>
  Modelled from the spec: the process-wide event bus \<open>EventBus\<close>, whose code is not
  among the sources. The spec has it carry a named signal to once-only and to persistent
  listeners. \<open>$on(name, callback, once)\<close> registers a listener, once-only when the third
  argument is \<open>true\<close> and persistent when it is left out; \<open>$emit(name)\<close> calls the
  listeners registered under the name, in the order of their registration, and drops the
  once-only ones. A signal emitted while nothing listens is lost.
\<close>

definition EventBus_on :: "string \<Rightarrow> listener \<Rightarrow> bool \<Rightarrow> loader \<Rightarrow> loader" where
  "EventBus_on name callback once s = s\<lparr>listeners := listeners s @ [(name, callback, once)]\<rparr>"

text \<open>
  The two callbacks that the source registers. The one of \<open>initializeApp\<close> starts the
  import of the application module; the one of \<open>loadFirebaseAnalytics\<close> is an
  \<open>async\<close> function, which runs up to its \<open>await dataPromises.firebaseApp\<close>.
\<close>

fun invoke :: "listener \<Rightarrow> loader \<Rightarrow> loader" where
  "invoke (L_resolveFirebase p) s =
     (let (ip, s1) = dyn_import ''firebase/app'' s;
          (d, s2) = newPromise s1
      in on_settled ip (K_appImported p d) s2)"
| "invoke (L_resolveAnalytics p) s =
     (let (lp, s1) = newPromise s
      in await_slot (firebaseApp s1) (K_resolveAnalytics_app p lp) s1)"

definition EventBus_emit :: "string \<Rightarrow> loader \<Rightarrow> loader" where
  "EventBus_emit name s =
     (let called = filter (\<lambda>(n, l, once). n = name) (listeners s);
          s1 = s\<lparr>listeners := filter (\<lambda>(n, l, once). \<not> (n = name \<and> once)) (listeners s)\<rparr>
      in fold (\<lambda>(n, l, once). invoke l) called s1)"

subsection \<open>Activation and the module promises\<close>

definition initializeApp :: "loader \<Rightarrow> pid \<times> loader" where
  "initializeApp s =
     (let (p, s1) = newPromise s
      in (p, EventBus_on ''resolveFirebase'' (L_resolveFirebase p) True s1))"

definition makeFirebaseActive :: "loader \<Rightarrow> loader" where
  "makeFirebaseActive s =
     (let s1 = (if firebaseApp s = None
                then (let (p, s') = initializeApp s in s'\<lparr>firebaseApp := Some p\<rparr>)
                else s)
      in EventBus_emit ''resolveFirebase'' s1)"

definition loadFirebaseAuth :: "loader \<Rightarrow> pid \<times> loader" where
  "loadFirebaseAuth s =
     (let (r, s1) = newPromise s
      in (r, await_slot (firebaseApp s1) (K_loadFirebaseAuth_app r) s1))"

definition loadFirebaseAnalytics :: "loader \<Rightarrow> pid \<times> loader" where
  "loadFirebaseAnalytics s =
     (let (p, s1) = newPromise s
      in (p, EventBus_on ''resolveAnalytics'' (L_resolveAnalytics p) False s1))"

definition makeAnalyticsActive :: "loader \<Rightarrow> loader" where
  "makeAnalyticsActive s =
     (let s1 = (if analyticsModule s = None
                then (let (p, s') = loadFirebaseAnalytics s in s'\<lparr>analyticsModule := Some p\<rparr>)
                else s)
      in EventBus_emit ''resolveAnalytics'' s1)"

subsection \<open>Consumers of the module promises\<close>

text \<open>
  \<open>getAuthModule\<close> is an \<open>async\<close> function: a call makes the promise \<open>r\<close> that
  it returns and runs the body up to the first \<open>await\<close> or \<open>return\<close>.
  \<open>getAuthModule_from resumed r\<close> is the body, entered at its start, or after the
  \<open>await\<close> inside the first \<open>if\<close> when \<open>resumed\<close> holds. Returning a
  promise from an \<open>async\<close> function makes \<open>r\<close> follow that promise.
\<close>

function getAuthModule_from :: "bool \<Rightarrow> pid \<Rightarrow> loader \<Rightarrow> loader" where
  "getAuthModule_from resumed r s =
     (if \<not> resumed \<and> firebaseApp s = None then
        (let (p, s1) = initializeApp s;
             s2 = s1\<lparr>firebaseApp := Some p\<rparr>
         in on_settled p (K_getAuthModule r) s2)
      else
        (case authModule s of
           Some q \<Rightarrow> on_settled q (K_resolveWith r) s
         | None \<Rightarrow>
             (let (q, s1) = loadFirebaseAuth s;
                  s2 = s1\<lparr>authModule := Some q\<rparr>;
                  (r2, s3) = newPromise s2;
                  s4 = getAuthModule_from False r2 s3
              in on_settled r2 (K_resolveWith r) s4)))"
  by pat_completeness auto
termination
  by (relation "measure (\<lambda>(resumed, r, s). if authModule s = None then 1 else 0)")
     (auto simp: newPromise_def loadFirebaseAuth_def)

definition getAuthModule :: "loader \<Rightarrow> pid \<times> loader" where
  "getAuthModule s = (let (r, s1) = newPromise s in (r, getAuthModule_from False r s1))"

function getAnalyticsModule_from :: "bool \<Rightarrow> pid \<Rightarrow> loader \<Rightarrow> loader" where
  "getAnalyticsModule_from resumed r s =
     (if \<not> resumed \<and> firebaseApp s = None then
        (let (p, s1) = initializeApp s;
             s2 = s1\<lparr>firebaseApp := Some p\<rparr>
         in on_settled p (K_getAnalyticsModule r) s2)
      else
        (case analyticsModule s of
           Some q \<Rightarrow> on_settled q (K_resolveWith r) s
         | None \<Rightarrow>
             (let (q, s1) = loadFirebaseAnalytics s;
                  s2 = s1\<lparr>analyticsModule := Some q\<rparr>;
                  (r2, s3) = newPromise s2;
                  s4 = getAnalyticsModule_from False r2 s3
              in on_settled r2 (K_resolveWith r) s4)))"
  by pat_completeness auto
termination
  by (relation "measure (\<lambda>(resumed, r, s). if analyticsModule s = None then 1 else 0)")
     (auto simp: newPromise_def loadFirebaseAnalytics_def EventBus_on_def)

definition getAnalyticsModule :: "loader \<Rightarrow> pid \<times> loader" where
  "getAnalyticsModule s = (let (r, s1) = newPromise s in (r, getAnalyticsModule_from False r s1))"

text \<open>
  \<open>getAuth\<close> as the module's own functions call it, without an application argument:
  the auth instance of the default application.
\<close>

definition getAuth :: "loader \<Rightarrow> pid \<times> loader" where
  "getAuth s =
     (let (r, s1) = newPromise s;
          (m, s2) = getAuthModule s1
      in (r, on_settled m (K_getAuth r) s2))"

text \<open>The two \<open>switch\<close> statements, on the provider name as it arrives at run time.\<close>

definition unknownProvider :: "string \<Rightarrow> error" where
  "unknownProvider provider = Error (''Unknown provider '' @ [CHR 0x27] @ provider @ [CHR 0x27])"

definition getProvider_switch :: "string \<Rightarrow> error + AuthProvider" where
  "getProvider_switch provider =
     (if provider = ''google'' then Inr GoogleAuthProvider
      else if provider = ''facebook'' then Inr FacebookAuthProvider
      else if provider = ''github'' then Inr GithubAuthProvider
      else Inl (unknownProvider provider))"

definition getCredential_switch :: "string \<Rightarrow> string \<Rightarrow> error + OAuthCredential" where
  "getCredential_switch provider accessToken =
     (if provider = ''google'' then Inr (Credential GoogleAuthProvider accessToken)
      else if provider = ''facebook'' then Inr (Credential FacebookAuthProvider accessToken)
      else if provider = ''github'' then Inr (Credential GithubAuthProvider accessToken)
      else Inl (unknownProvider provider))"

definition getProvider :: "string \<Rightarrow> loader \<Rightarrow> pid \<times> loader" where
  "getProvider provider s =
     (let (r, s1) = newPromise s;
          (m, s2) = getAuthModule s1
      in (r, on_settled m (K_getProvider r provider) s2))"

definition getCredential :: "string \<Rightarrow> string \<Rightarrow> loader \<Rightarrow> pid \<times> loader" where
  "getCredential provider accessToken s =
     (let (r, s1) = newPromise s;
          (m, s2) = getAuthModule s1
      in (r, on_settled m (K_getCredential r provider accessToken) s2))"

text \<open>
  \<open>getCurrentUser\<close>: \<open>u\<close> is the promise that the function makes with
  \<open>new Promise\<close>, \<open>r\<close> the promise of the \<open>async\<close> function itself, which
  follows \<open>u\<close>, and \<open>d\<close> the promise of the \<open>then\<close>. The flag is read when the
  call is made.
\<close>

definition getCurrentUser :: "loader \<Rightarrow> pid \<times> loader" where
  "getCurrentUser s =
     (let (r, s1) = newPromise s;
          (u, s2) = newPromise s1;
          (a, s3) = getAuth s2;
          (d, s4) = newPromise s3;
          s5 = on_settled a (if userLoaded s then K_currentUser u d else K_subscribe u d) s4
      in (r, on_settled u (K_resolveWith r) s5))"

text \<open>
  The provider's side of \<open>onAuthStateChanged\<close>: the callback that \<open>getCurrentUser\<close>
  passes sets the flag, unsubscribes and resolves the user promise; the error callback is
  \<open>rejectUser\<close>.
\<close>

definition authStateCallback :: "user option \<Rightarrow> pid \<Rightarrow> loader \<Rightarrow> loader" where
  "authStateCallback usr u s =
     settle u (Fulfilled (VUser usr))
       (s\<lparr>userLoaded := True, subscriptions := removeAll u (subscriptions s)\<rparr>)"

definition authStateChanged :: "user option \<Rightarrow> loader \<Rightarrow> loader" where
  "authStateChanged usr s = fold (authStateCallback usr) (subscriptions s) (s\<lparr>currentUser := usr\<rparr>)"

definition authStateError :: "error \<Rightarrow> loader \<Rightarrow> loader" where
  "authStateError e s = fold (\<lambda>u. settle u (Rejected e)) (subscriptions s) s"

definition getIdToken :: "loader \<Rightarrow> pid \<times> loader" where
  "getIdToken s =
     (let (t, s1) = newPromise s in (t, s1\<lparr>idTokenRequests := idTokenRequests s1 @ [t]\<rparr>))"

definition getUserToken :: "loader \<Rightarrow> pid \<times> loader" where
  "getUserToken s =
     (let (r, s1) = newPromise s;
          (m, s2) = getAuthModule s1
      in (r, on_settled m (K_getUserToken_module r) s2))"

definition analyticsLogger :: "string \<Rightarrow> logObject \<Rightarrow> loader \<Rightarrow> loader" where
  "analyticsLogger logType logObj s =
     (if NODE_ENV s \<noteq> ''production'' then s
      else
        (let (m, s1) = getAnalyticsModule s;
             (d, s2) = newPromise s1;
             s3 = on_settled m (K_logEvent d logType logObj) s2;
             (c, s4) = newPromise s3
         in on_settled d (K_catch c) s4))"

subsection \<open>Running a continuation\<close>

text \<open>The text that \<open>analyticsLogger\<close> writes to the console in its \<open>catch\<close>.\<close>

definition couldnt_be_loaded :: string where
  "couldnt_be_loaded = ''Analytics couldn'' @ [CHR 0x27] @ ''t be loaded''"

text \<open>
  \<open>resume k res\<close> runs the continuation \<open>k\<close> on the result \<open>res\<close> of the promise
  it waited on. After an \<open>await\<close>, a rejection is thrown inside the \<open>async\<close>
  function and rejects its promise; a \<open>then\<close> passes a rejection on to its own promise,
  and a \<open>catch\<close> passes a value on.
\<close>

fun resume :: "kont \<Rightarrow> pstate \<Rightarrow> loader \<Rightarrow> loader" where
  "resume (K_appImported p d) (Fulfilled appModule) s =
     (let config = firebaseConfig.truncate (runtimeConfig s);
          s1 = s\<lparr>apps := apps s @ [config]\<rparr>;
          s2 = displayConsole ''Firebase resolved'' ''firebaseAuth/initializeApp'' s1;
          s3 = settle p (Fulfilled (VApp config)) s2
      in settle d (Fulfilled VUndefined) s3)"
| "resume (K_appImported p d) res s = settle d res s"
| "resume (K_loadFirebaseAuth_app r) (Fulfilled app) s =
     (let (ip, s1) = dyn_import ''firebase/auth'' s
      in on_settled ip (K_loadFirebaseAuth_imported r) s1)"
| "resume (K_loadFirebaseAuth_app r) res s = settle r res s"
| "resume (K_loadFirebaseAuth_imported r) res s = settle r res s"
| "resume (K_resolveAnalytics_app p lp) (Fulfilled app) s =
     (let (ip, s1) = dyn_import ''firebase/analytics'' s
      in on_settled ip (K_resolveAnalytics_imported p lp) s1)"
| "resume (K_resolveAnalytics_app p lp) res s = settle lp res s"
| "resume (K_resolveAnalytics_imported p lp) (Fulfilled analytics) s =
     (let s1 = displayConsole ''Anaylytics resolved'' ''firebaseAuth/loadFirebaseAnalytics'' s;
          s2 = settle p (Fulfilled VAnalyticsModule) s1
      in settle lp (Fulfilled VUndefined) s2)"
| "resume (K_resolveAnalytics_imported p lp) res s = settle lp res s"
| "resume (K_getAuthModule r) (Fulfilled app) s = getAuthModule_from True r s"
| "resume (K_getAuthModule r) res s = settle r res s"
| "resume (K_getAnalyticsModule r) (Fulfilled app) s = getAnalyticsModule_from True r s"
| "resume (K_getAnalyticsModule r) res s = settle r res s"
| "resume (K_resolveWith r) res s = settle r res s"
| "resume (K_getAuth r) (Fulfilled am) s = settle r (Fulfilled VAuth) s"
| "resume (K_getAuth r) res s = settle r res s"
| "resume (K_getProvider r provider) (Fulfilled am) s =
     (case getProvider_switch provider of
        Inr v \<Rightarrow> settle r (Fulfilled (VProvider v)) s
      | Inl e \<Rightarrow> settle r (Rejected e) s)"
| "resume (K_getProvider r provider) res s = settle r res s"
| "resume (K_getCredential r provider accessToken) (Fulfilled am) s =
     (case getCredential_switch provider accessToken of
        Inr v \<Rightarrow> settle r (Fulfilled (VCredential v)) s
      | Inl e \<Rightarrow> settle r (Rejected e) s)"
| "resume (K_getCredential r provider accessToken) res s = settle r res s"
| "resume (K_currentUser u d) (Fulfilled auth) s =
     settle d (Fulfilled VUndefined) (settle u (Fulfilled (VUser (currentUser s))) s)"
| "resume (K_currentUser u d) res s = settle d res s"
| "resume (K_subscribe u d) (Fulfilled auth) s =
     settle d (Fulfilled VUndefined)
       (s\<lparr>subscriptions := subscriptions s @ [u], subscribeCalls := Suc (subscribeCalls s)\<rparr>)"
| "resume (K_subscribe u d) res s = settle d res s"
| "resume (K_getUserToken_module r) (Fulfilled am) s =
     (if authenticatedState (userStore s) then
        (case currentUser s of
           None \<Rightarrow> enqueue (K_getUserToken_idToken r) (Fulfilled VUndefined) s
         | Some usr \<Rightarrow>
             (let (t, s1) = getIdToken s in on_settled t (K_getUserToken_idToken r) s1))
      else settle r (Fulfilled (VString (userToken (userStore s)))) s)"
| "resume (K_getUserToken_module r) res s = settle r res s"
| "resume (K_getUserToken_idToken r) (Fulfilled idToken) s =
     settle r (Fulfilled (VString (userToken (userStore s)))) s"
| "resume (K_getUserToken_idToken r) res s = settle r res s"
| "resume (K_logEvent d logType logObj) (Fulfilled am) s =
     (case analyticsFault s of
        Some e \<Rightarrow> settle d (Rejected e) (s\<lparr>analyticsCalls := analyticsCalls s @ [GetAnalytics]\<rparr>)
      | None \<Rightarrow>
          settle d (Fulfilled VUndefined)
            (s\<lparr>analyticsCalls := analyticsCalls s @ [GetAnalytics, LogEvent logType logObj]\<rparr>))"
| "resume (K_logEvent d logType logObj) res s = settle d res s"
| "resume (K_catch c) (Rejected err) s =
     settle c (Fulfilled VUndefined)
       (s\<lparr>console := console s @ [ConsoleLog couldnt_be_loaded err]\<rparr>)"
| "resume (K_catch c) res s = settle c res s"

subsection \<open>Executions\<close>

text \<open>
  What can happen to the module: a call of one of its functions, the next microtask, and
  the collaborators' moves (a dynamic import loads or fails, the provider delivers an
  auth state or an error, an id-token request is answered, the user store changes, the
  analytics module starts or stops failing).
\<close>

datatype call =
    MakeFirebaseActive
  | MakeAnalyticsActive
  | GetAuthModule
  | GetAnalyticsModule
  | GetAuth
  | GetProvider string
  | GetCredential string string
  | GetCurrentUser
  | GetUserToken
  | AnalyticsLogger string logObject

datatype event =
    Call call
  | Tick
  | ImportLoaded pid
  | ImportFailed pid error
  | AuthStateChanged "user option"
  | AuthStateError error
  | IdTokenResolved pid string
  | IdTokenRejected pid error
  | UserStoreChanged user_store
  | AnalyticsFault "error option"

fun do_call :: "call \<Rightarrow> loader \<Rightarrow> loader" where
  "do_call MakeFirebaseActive s = makeFirebaseActive s"
| "do_call MakeAnalyticsActive s = makeAnalyticsActive s"
| "do_call GetAuthModule s = snd (getAuthModule s)"
| "do_call GetAnalyticsModule s = snd (getAnalyticsModule s)"
| "do_call GetAuth s = snd (getAuth s)"
| "do_call (GetProvider provider) s = snd (getProvider provider s)"
| "do_call (GetCredential provider accessToken) s = snd (getCredential provider accessToken s)"
| "do_call GetCurrentUser s = snd (getCurrentUser s)"
| "do_call GetUserToken s = snd (getUserToken s)"
| "do_call (AnalyticsLogger logType logObj) s = analyticsLogger logType logObj s"

definition tick :: "loader \<Rightarrow> loader" where
  "tick s =
     (case microtasks s of
        [] \<Rightarrow> s
      | (k, res) # rest \<Rightarrow> resume k res (s\<lparr>microtasks := rest\<rparr>))"

fun step :: "event \<Rightarrow> loader \<Rightarrow> loader" where
  "step (Call c) s = do_call c s"
| "step Tick s = tick s"
| "step (ImportLoaded ip) s =
     (case filter (\<lambda>(specifier, p). p = ip) (moduleImports s) of
        [] \<Rightarrow> s
      | (specifier, p) # others \<Rightarrow> settle ip (Fulfilled (VModule specifier)) s)"
| "step (ImportFailed ip e) s =
     (if ip \<in> snd ` set (moduleImports s) then settle ip (Rejected e) s else s)"
| "step (AuthStateChanged usr) s = authStateChanged usr s"
| "step (AuthStateError e) s = authStateError e s"
| "step (IdTokenResolved t tok) s =
     (if t \<in> set (idTokenRequests s) then settle t (Fulfilled (VString tok)) s else s)"
| "step (IdTokenRejected t e) s =
     (if t \<in> set (idTokenRequests s) then settle t (Rejected e) s else s)"
| "step (UserStoreChanged st) s = s\<lparr>userStore := st\<rparr>"
| "step (AnalyticsFault f) s = s\<lparr>analyticsFault := f\<rparr>"

fun exec :: "event list \<Rightarrow> loader \<Rightarrow> loader" where
  "exec [] s = s"
| "exec (e # es) s = exec es (step e s)"

text \<open>The module as it is loaded, in a given configuration, mode and user store.\<close>

definition init :: "publicConfig \<Rightarrow> string \<Rightarrow> user_store \<Rightarrow> loader" where
  "init cfg mode st =
     \<lparr>firebaseApp = None, authModule = None, analyticsModule = None, userLoaded = False,
      promises = [], reactions = [], microtasks = [], listeners = [], moduleImports = [],
      apps = [], currentUser = None, subscriptions = [], subscribeCalls = 0,
      idTokenRequests = [], userStore = st, analyticsCalls = [], analyticsFault = None,
      console = [], runtimeConfig = cfg, NODE_ENV = mode\<rparr>"

subsection \<open>Notions used to state the properties\<close>

declare getAuthModule_from.simps [simp del]
declare getAnalyticsModule_from.simps [simp del]

text \<open>
  \<open>kept s s'\<close>: every slot of \<open>dataPromises\<close> that is set in \<open>s\<close> holds the same
  promise in \<open>s'\<close>, and \<open>userLoaded\<close> is still true in \<open>s'\<close> when it is in \<open>s\<close>.
\<close>

definition vars :: "loader \<Rightarrow> pid option \<times> pid option \<times> pid option \<times> bool" where
  "vars s = (firebaseApp s, authModule s, analyticsModule s, userLoaded s)"

definition kept :: "loader \<Rightarrow> loader \<Rightarrow> bool" where
  "kept s s' =
     ((\<forall>p. firebaseApp s = Some p \<longrightarrow> firebaseApp s' = Some p) \<and>
      (\<forall>p. authModule s = Some p \<longrightarrow> authModule s' = Some p) \<and>
      (\<forall>p. analyticsModule s = Some p \<longrightarrow> analyticsModule s' = Some p) \<and>
      (userLoaded s \<longrightarrow> userLoaded s'))"

text \<open>
  The continuations that are waiting or queued, and whether one of them is the
  subscribing callback of \<open>getCurrentUser\<close>.
\<close>

fun is_subscribe :: "kont \<Rightarrow> bool" where
  "is_subscribe (K_subscribe u d) = True"
| "is_subscribe k = False"

definition waiting :: "loader \<Rightarrow> kont list" where
  "waiting s = map snd (reactions s) @ map fst (microtasks s)"

definition subscribing :: "loader \<Rightarrow> bool" where
  "subscribing s = list_ex is_subscribe (waiting s)"

definition view :: "loader \<Rightarrow> bool \<times> nat \<times> bool" where
  "view s = (userLoaded s, subscribeCalls s, subscribing s)"

text \<open>
  \<open>ready s am\<close>: the auth module has loaded with the handle \<open>am\<close>, no microtask is
  queued, and every waiting continuation waits on a promise that exists. This is the
  state in which a consumer is called from a task of its own once the SDK has loaded.
\<close>

definition ready :: "loader \<Rightarrow> val \<Rightarrow> bool" where
  "ready s am =
     (microtasks s = [] \<and>
      list_all (\<lambda>(p, k). p < length (promises s)) (reactions s) \<and>
      firebaseApp s \<noteq> None \<and>
      (case authModule s of None \<Rightarrow> False | Some q \<Rightarrow> pstate_of s q = Fulfilled am))"

definition example_config :: publicConfig where
  "example_config =
     \<lparr>apiKey = ''key'', authDomain = ''example.firebaseapp.com'',
      databaseURL = ''https://example.firebaseio.com'', projectId = ''example'',
      storageBucket = ''example.appspot.com'', messagingSenderId = ''1'', appId = ''app'',
      measurementId = ''G-1'', title = ''Example'', googleClientId = ''client''\<rparr>"

definition example_store :: user_store where
  "example_store = \<lparr>authenticatedState = True, userId = ''uid'', userToken = ''cached''\<rparr>"

text \<open>The module as loaded in production mode, before anything is called.\<close>

definition start :: loader where
  "start = init example_config ''production'' example_store"

text \<open>
  A consumer called before activation, then the activation and the two imports: the
  state in which the auth module has loaded.
\<close>

definition loaded :: loader where
  "loaded =
     exec [Call GetAuthModule, Call MakeFirebaseActive, ImportLoaded 2, Tick, Tick, Tick,
           ImportLoaded 6, Tick, Tick, Tick] start"

text \<open>
  Three more states: the provider has delivered a signed-in user; the user store reports
  nobody signed in; and the first \<open>getCurrentUser\<close> has run to its end.
\<close>

definition signed_in :: loader where
  "signed_in = exec [AuthStateChanged (Some (User ''u1''))] loaded"

definition signed_out :: loader where
  "signed_out =
     exec [UserStoreChanged \<lparr>authenticatedState = False, userId = ''nobody'', userToken = ''stale''\<rparr>]
       loaded"

definition user_loaded :: loader where
  "user_loaded =
     exec [Tick, Tick, Tick, AuthStateChanged (Some (User ''u1'')), Tick]
       (snd (getCurrentUser loaded))"

text \<open>
  \<open>grow s s'\<close>: from \<open>s\<close> to \<open>s'\<close> the promises of \<open>s\<close> are untouched, the
  promises added are pending, and a slot of \<open>dataPromises\<close> either is as it was or was
  unset and now holds one of the promises added.
\<close>

definition slot_ok :: "pid option \<Rightarrow> pid option \<Rightarrow> loader \<Rightarrow> loader \<Rightarrow> bool" where
  "slot_ok a a' s s' =
     (a' = a \<or>
      (a = None \<and> (\<exists>p. a' = Some p \<and> length (promises s) \<le> p \<and> p < length (promises s'))))"

definition grow :: "loader \<Rightarrow> loader \<Rightarrow> bool" where
  "grow s s' =
     ((\<exists>ps. promises s' = promises s @ ps \<and> list_all (\<lambda>x. x = Pending) ps) \<and>
      slot_ok (firebaseApp s) (firebaseApp s') s s' \<and>
      slot_ok (authModule s) (authModule s') s s' \<and>
      slot_ok (analyticsModule s) (analyticsModule s') s s')"

definition slots :: "loader \<Rightarrow> pid option \<times> pid option \<times> pid option" where
  "slots s = (firebaseApp s, authModule s, analyticsModule s)"

section \<open>Properties of the local key-value accessor\<close>

lemma map_of_put_store: "map_of (put_store st v key) key = Some v"
  by (induction st) auto

lemma storeKarma_stored:
  assumes "storeKarma v s = (Inr (), s')"
  shows "refused s' USER_DB_NAME = None \<and>
     (\<exists>db st. databases s' USER_DB_NAME = Some db \<and> version db = 1
        \<and> stores db ''userInfo'' = Some st \<and> map_of st ''karma'' = Some (Num v))"
  using assms
  by (auto simp: storeKarma_def getUserDB_def getDBPromise_def openDB_def put_rec_def Let_def
      createObjectStore_def map_of_put_store
      split: option.splits if_splits sum.splits prod.splits)

lemma readKarma_stored:
  assumes "refused s USER_DB_NAME = None" "databases s USER_DB_NAME = Some db" "version db = 1"
     "stores db ''userInfo'' = Some st" "map_of st ''karma'' = Some w"
  shows "readKarma s = (Inr (js_or w (Num (Finite 0))), s)"
  using assms
  by (simp add: readKarma_def getUserDB_def getDBPromise_def openDB_def get_rec_def Let_def)

lemma js_or_num:
  "js_or (Num v) (Num (Finite 0)) = (if v = NaN \<or> v = NegZero then Num (Finite 0) else Num v)"
  by (cases v) (auto simp: js_or_def)

text \<open>
  Claim C1, as the code has it. After a completed \<open>storeKarma(v)\<close>, \<open>readKarma()\<close>
  returns \<open>v\<close> for every number \<open>v\<close> that is neither \<open>NaN\<close> nor the negative zero,
  and the positive zero for those two (it returns \<open>karma || 0\<close>); the read leaves the
  storage as it was, so further reads return the same. On a storage in which no
  \<open>storeKarma\<close> has run, \<open>readKarma()\<close> returns \<open>0\<close> and leaves such a storage.
\<close>

theorem readKarma_after_storeKarma:
  "(storeKarma v s = (Inr (), s') \<longrightarrow>
      readKarma s' = (Inr (if v = NaN \<or> v = NegZero then Num (Finite 0) else Num v), s'))
   \<and> (karma_unset s \<and> refused s USER_DB_NAME = None \<longrightarrow>
        fst (readKarma s) = Inr (Num (Finite 0)) \<and> karma_unset (snd (readKarma s)))"
proof (intro conjI impI)
  assume a: "storeKarma v s = (Inr (), s')"
  from storeKarma_stored[OF a] obtain db st where
    "refused s' USER_DB_NAME = None" "databases s' USER_DB_NAME = Some db" "version db = 1"
    "stores db ''userInfo'' = Some st" "map_of st ''karma'' = Some (Num v)"
    by blast
  from readKarma_stored[OF this]
  show "readKarma s' = (Inr (if v = NaN \<or> v = NegZero then Num (Finite 0) else Num v), s')"
    by (simp add: js_or_num)
next
  assume "karma_unset s \<and> refused s USER_DB_NAME = None"
  then show "fst (readKarma s) = Inr (Num (Finite 0))"
    by (auto simp: karma_unset_def readKarma_def getUserDB_def getDBPromise_def openDB_def
        get_rec_def Let_def createObjectStore_def js_or_def split: option.splits)
next
  assume "karma_unset s \<and> refused s USER_DB_NAME = None"
  then show "karma_unset (snd (readKarma s))"
    by (auto simp: karma_unset_def readKarma_def getUserDB_def getDBPromise_def openDB_def
        get_rec_def Let_def createObjectStore_def js_or_def split: option.splits)
qed

theorem readKarma_after_storeKarma_witness:
  "fst (storeKarma (Finite 7) fresh_idb) = Inr () \<and>
   fst (readKarma (snd (storeKarma (Finite 7) fresh_idb))) = Inr (Num (Finite 7)) \<and>
   karma_unset fresh_idb \<and> refused fresh_idb USER_DB_NAME = None \<and>
   fst (readKarma fresh_idb) = Inr (Num (Finite 0))"
  using readKarma_after_storeKarma
          [of "Finite 7" fresh_idb "snd (storeKarma (Finite 7) fresh_idb)"]
  by (simp add: storeKarma_def getUserDB_def getDBPromise_def openDB_def put_rec_def Let_def
      createObjectStore_def fresh_idb_def USER_DB_NAME_def karma_unset_def)

text \<open>
  Claim C1 as stated fails at \<open>v = NaN\<close>: the store completes, and the read that
  follows returns \<open>0\<close>, which is not the stored value.
\<close>

theorem readKarma_NaN_counterexample:
  "fst (storeKarma NaN fresh_idb) = Inr () \<and>
   fst (readKarma (snd (storeKarma NaN fresh_idb))) = Inr (Num (Finite 0)) \<and>
   Num (Finite 0) \<noteq> Num NaN"
  by (simp add: storeKarma_def readKarma_def getUserDB_def getDBPromise_def openDB_def
      put_rec_def Let_def createObjectStore_def fresh_idb_def USER_DB_NAME_def get_rec_def
      js_or_def)

lemma filterRows_stringKeyed:
  "list_all stringKeyed rows \<Longrightarrow> filterRows rows = Inr (filter isAuthUser rows)"
  by (induction rows)
     (auto simp: stringKeyed_def isAuthUser_def split: sum.splits jsval.splits)

lemma readCreds_try_rows:
  assumes "credRows s = Some rows" "list_all stringKeyed rows"
  shows "readCreds_try s =
     (case filter isAuthUser rows of
        [] \<Rightarrow> (Inr \<lparr>token = Str [], uid = Str []\<rparr>, s)
      | row # others \<Rightarrow>
         (case getProp row ''value'' of
            Inl e \<Rightarrow> (Inl e, s)
          | Inr val \<Rightarrow>
              (case getProp val ''stsTokenManager'' of
                 Inl e \<Rightarrow> (Inl e, s)
               | Inr mgr \<Rightarrow>
                   (case getProp mgr ''accessToken'' of
                      Inl e \<Rightarrow> (Inl e, s)
                    | Inr tok \<Rightarrow>
                        (case getProp val ''uid'' of
                           Inl e \<Rightarrow> (Inl e, s)
                         | Inr u \<Rightarrow> (Inr \<lparr>token = tok, uid = u\<rparr>, s))))))"
  using assms
  by (auto simp: credRows_def readCreds_try_def getFirebaseDB_def getDBPromise_def openDB_def
      getAll_def filterRows_stringKeyed Let_def
      split: option.splits if_splits)

text \<open>
  Claim C2. On a credential store whose records have string keys, none of which contains
  the auth-user marker, \<open>readCreds()\<close> returns \<open>{ token: "", uid: "" }\<close> and raises
  nothing. On a store of two records, in either order, one whose key does not contain the
  marker and one whose key does, it returns the nested \<open>uid\<close> and
  \<open>stsTokenManager.accessToken\<close> of the matching record.
\<close>

theorem readCreds_empty_and_matching:
  "(credRows s = Some rows \<and> list_all stringKeyed rows \<and> filter isAuthUser rows = [] \<longrightarrow>
      readCreds s = (Inr \<lparr>token = Str [], uid = Str []\<rparr>, s))
   \<and> (credRows s = Some rows \<and> (rows = [other, row] \<or> rows = [row, other]) \<and>
       stringKeyed other \<and> \<not> isAuthUser other \<and> isAuthUser row \<and> credsOf row tok u \<longrightarrow>
      readCreds s = (Inr \<lparr>token = tok, uid = u\<rparr>, s))"
proof (intro conjI impI)
  assume "credRows s = Some rows \<and> list_all stringKeyed rows \<and> filter isAuthUser rows = []"
  then show "readCreds s = (Inr \<lparr>token = Str [], uid = Str []\<rparr>, s)"
    by (simp add: readCreds_def readCreds_try_rows)
next
  assume a: "credRows s = Some rows \<and> (rows = [other, row] \<or> rows = [row, other]) \<and>
       stringKeyed other \<and> \<not> isAuthUser other \<and> isAuthUser row \<and> credsOf row tok u"
  then have k: "stringKeyed row"
    by (auto simp: stringKeyed_def isAuthUser_def split: sum.splits jsval.splits)
  from a k have "list_all stringKeyed rows" "filter isAuthUser rows = [row]"
    by auto
  with a show "readCreds s = (Inr \<lparr>token = tok, uid = u\<rparr>, s)"
    by (auto simp: readCreds_def readCreds_try_rows credsOf_def split: sum.splits)
qed

theorem readCreds_empty_and_matching_witness:
  "credRows empty_cred_example = Some [] \<and>
   readCreds empty_cred_example = (Inr \<lparr>token = Str [], uid = Str []\<rparr>, empty_cred_example) \<and>
   credRows cred_example =
     Some [Obj [(''fbase_key'', Str ''firebase:authUser:key:[DEFAULT]''),
                (''value'', Obj [(''uid'', Str ''u1''),
                                 (''stsTokenManager'', Obj [(''accessToken'', Str ''t1'')])])],
           Obj [(''fbase_key'', Str ''firebase:host:app''), (''value'', Str ''x'')]] \<and>
   readCreds cred_example = (Inr \<lparr>token = Str ''t1'', uid = Str ''u1''\<rparr>, cred_example)"
  using readCreds_empty_and_matching [of empty_cred_example "[]"]
        readCreds_empty_and_matching
          [of cred_example
              "[Obj [(''fbase_key'', Str ''firebase:authUser:key:[DEFAULT]''),
                     (''value'', Obj [(''uid'', Str ''u1''),
                                      (''stsTokenManager'', Obj [(''accessToken'', Str ''t1'')])])],
                Obj [(''fbase_key'', Str ''firebase:host:app''), (''value'', Str ''x'')]]"
              "Obj [(''fbase_key'', Str ''firebase:host:app''), (''value'', Str ''x'')]"
              "Obj [(''fbase_key'', Str ''firebase:authUser:key:[DEFAULT]''),
                    (''value'', Obj [(''uid'', Str ''u1''),
                                     (''stsTokenManager'', Obj [(''accessToken'', Str ''t1'')])])]"
              "Str ''t1''" "Str ''u1''"]
  by (simp add: credRows_def cred_example_def empty_cred_example_def FIREBASE_DB_NAME_def
      stringKeyed_def isAuthUser_def credsOf_def sublist_code prefix_code)

section \<open>Properties of the deferred module loader\<close>

subsection \<open>The module's variables are only ever set\<close>

lemma kept_refl: "kept s s"
  by (simp add: kept_def)

lemma kept_trans: "kept s s1 \<Longrightarrow> kept s1 s2 \<Longrightarrow> kept s s2"
  by (simp add: kept_def)

lemma kept_vars: "vars s' = vars s \<Longrightarrow> kept s s'"
  by (simp add: kept_def vars_def)

lemma vars_newPromise: "vars (snd (newPromise s)) = vars s"
  by (simp add: vars_def newPromise_def)

lemma vars_enqueue: "vars (enqueue k r s) = vars s"
  by (simp add: vars_def enqueue_def)

lemma vars_on_settled: "vars (on_settled p k s) = vars s"
  by (simp add: vars_def on_settled_def enqueue_def split: pstate.splits)

lemma vars_await_slot: "vars (await_slot sl k s) = vars s"
  by (simp add: await_slot_def vars_enqueue vars_on_settled split: option.splits)

lemma vars_settle: "vars (settle p r s) = vars s"
  by (simp add: vars_def settle_def)

lemma vars_dyn_import: "vars (snd (dyn_import m s)) = vars s"
  by (simp add: vars_def dyn_import_def newPromise_def)

lemma vars_displayConsole: "vars (displayConsole a b s) = vars s"
  by (simp add: vars_def displayConsole_def)

lemma vars_EventBus_on: "vars (EventBus_on n l b s) = vars s"
  by (simp add: vars_def EventBus_on_def)

lemma vars_invoke: "vars (invoke l s) = vars s"
  by (cases l)
     (simp_all add: split_def Let_def vars_on_settled vars_await_slot vars_newPromise vars_dyn_import)

lemma vars_fold_invoke: "vars (fold (\<lambda>(n, l, once). invoke l) ls s) = vars s"
  by (induction ls arbitrary: s) (simp_all add: split_def vars_invoke)

lemma vars_EventBus_emit: "vars (EventBus_emit n s) = vars s"
  by (simp add: EventBus_emit_def Let_def vars_fold_invoke) (simp add: vars_def)

lemma vars_initializeApp: "vars (snd (initializeApp s)) = vars s"
  by (simp add: initializeApp_def split_def Let_def vars_EventBus_on vars_newPromise)

lemma vars_loadFirebaseAuth: "vars (snd (loadFirebaseAuth s)) = vars s"
  by (simp add: loadFirebaseAuth_def split_def Let_def vars_await_slot vars_newPromise)

lemma vars_loadFirebaseAnalytics: "vars (snd (loadFirebaseAnalytics s)) = vars s"
  by (simp add: loadFirebaseAnalytics_def split_def Let_def vars_EventBus_on vars_newPromise)

lemma vars_getIdToken: "vars (snd (getIdToken s)) = vars s"
  by (simp add: getIdToken_def newPromise_def vars_def)

lemmas vars_simps =
  vars_newPromise vars_enqueue vars_on_settled vars_await_slot vars_settle vars_dyn_import
  vars_displayConsole vars_EventBus_on vars_invoke vars_EventBus_emit vars_initializeApp
  vars_loadFirebaseAuth vars_loadFirebaseAnalytics vars_getIdToken

lemma kept_set_firebaseApp:
  "firebaseApp s = None \<Longrightarrow> vars s1 = vars s \<Longrightarrow> kept s (s1\<lparr>firebaseApp := x\<rparr>)"
  by (auto simp: kept_def vars_def)

lemma kept_set_authModule:
  "authModule s = None \<Longrightarrow> vars s1 = vars s \<Longrightarrow> kept s (s1\<lparr>authModule := x\<rparr>)"
  by (auto simp: kept_def vars_def)

lemma kept_set_analyticsModule:
  "analyticsModule s = None \<Longrightarrow> vars s1 = vars s \<Longrightarrow> kept s (s1\<lparr>analyticsModule := x\<rparr>)"
  by (auto simp: kept_def vars_def)

lemma kept_then_vars: "kept s s1 \<Longrightarrow> vars s2 = vars s1 \<Longrightarrow> kept s s2"
  by (auto simp: kept_def vars_def)

lemma kept_makeFirebaseActive: "kept s (makeFirebaseActive s)"
proof (cases "firebaseApp s")
  case None
  then have "kept s ((snd (initializeApp s))\<lparr>firebaseApp := Some (fst (initializeApp s))\<rparr>)"
    by (rule kept_set_firebaseApp) (rule vars_initializeApp)
  then show ?thesis
    using None by (simp add: makeFirebaseActive_def split_def Let_def kept_then_vars vars_EventBus_emit)
next
  case (Some p)
  then show ?thesis
    by (simp add: makeFirebaseActive_def kept_vars vars_EventBus_emit)
qed

lemma kept_makeAnalyticsActive: "kept s (makeAnalyticsActive s)"
proof (cases "analyticsModule s")
  case None
  then have "kept s ((snd (loadFirebaseAnalytics s))\<lparr>analyticsModule := Some (fst (loadFirebaseAnalytics s))\<rparr>)"
    by (rule kept_set_analyticsModule) (rule vars_loadFirebaseAnalytics)
  then show ?thesis
    using None by (simp add: makeAnalyticsActive_def split_def Let_def kept_then_vars vars_EventBus_emit)
next
  case (Some p)
  then show ?thesis
    by (simp add: makeAnalyticsActive_def kept_vars vars_EventBus_emit)
qed

lemma kept_getAuthModule_from: "kept s (getAuthModule_from resumed r s)"
proof (induction resumed r s rule: getAuthModule_from.induct)
  case (1 resumed r s)
  show ?case
  proof (cases "\<not> resumed \<and> firebaseApp s = None")
    case True
    then have "kept s ((snd (initializeApp s))\<lparr>firebaseApp := Some (fst (initializeApp s))\<rparr>)"
      by (intro kept_set_firebaseApp) (simp_all add: vars_initializeApp)
    then show ?thesis
      using True
      by (subst getAuthModule_from.simps)
         (simp add: split_def Let_def kept_then_vars vars_on_settled)
  next
    case False
    show ?thesis
    proof (cases "authModule s")
      case (Some q)
      then show ?thesis
        using False
        by (subst getAuthModule_from.simps) (auto simp: kept_vars vars_on_settled)
    next
      case None
      let ?s2 = "(snd (loadFirebaseAuth s))\<lparr>authModule := Some (fst (loadFirebaseAuth s))\<rparr>"
      let ?s3 = "snd (newPromise ?s2)"
      have a: "kept s ?s2"
        using None by (intro kept_set_authModule) (simp_all add: vars_loadFirebaseAuth)
      have b: "kept s ?s3"
        by (rule kept_then_vars [OF a]) (rule vars_newPromise)
      have c: "kept ?s3 (getAuthModule_from False (fst (newPromise ?s2)) ?s3)"
        using False None by (intro "1.IH") (auto simp: prod_eq_iff)
      have "kept s (getAuthModule_from False (fst (newPromise ?s2)) ?s3)"
        by (rule kept_trans [OF b c])
      then show ?thesis
        using False None
        by (subst getAuthModule_from.simps)
           (auto simp: split_def Let_def kept_then_vars vars_on_settled)
    qed
  qed
qed


lemma kept_getAnalyticsModule_from: "kept s (getAnalyticsModule_from resumed r s)"
proof (induction resumed r s rule: getAnalyticsModule_from.induct)
  case (1 resumed r s)
  show ?case
  proof (cases "\<not> resumed \<and> firebaseApp s = None")
    case True
    then have "kept s ((snd (initializeApp s))\<lparr>firebaseApp := Some (fst (initializeApp s))\<rparr>)"
      by (intro kept_set_firebaseApp) (simp_all add: vars_initializeApp)
    then show ?thesis
      using True
      by (subst getAnalyticsModule_from.simps)
         (simp add: split_def Let_def kept_then_vars vars_on_settled)
  next
    case False
    show ?thesis
    proof (cases "analyticsModule s")
      case (Some q)
      then show ?thesis
        using False
        by (subst getAnalyticsModule_from.simps) (auto simp: kept_vars vars_on_settled)
    next
      case None
      let ?s2 = "(snd (loadFirebaseAnalytics s))\<lparr>analyticsModule := Some (fst (loadFirebaseAnalytics s))\<rparr>"
      let ?s3 = "snd (newPromise ?s2)"
      have a: "kept s ?s2"
        using None by (intro kept_set_analyticsModule) (simp_all add: vars_loadFirebaseAnalytics)
      have b: "kept s ?s3"
        by (rule kept_then_vars [OF a]) (rule vars_newPromise)
      have c: "kept ?s3 (getAnalyticsModule_from False (fst (newPromise ?s2)) ?s3)"
        using False None by (intro "1.IH") (auto simp: prod_eq_iff)
      have "kept s (getAnalyticsModule_from False (fst (newPromise ?s2)) ?s3)"
        by (rule kept_trans [OF b c])
      then show ?thesis
        using False None
        by (subst getAnalyticsModule_from.simps)
           (auto simp: split_def Let_def kept_then_vars vars_on_settled)
    qed
  qed
qed

lemma kept_step_vars: "vars s1 = vars s \<Longrightarrow> kept s1 s2 \<Longrightarrow> kept s s2"
  by (auto simp: kept_def vars_def)

lemma kept_getAuthModule: "kept s (snd (getAuthModule s))"
  by (simp add: getAuthModule_def split_def Let_def)
     (rule kept_step_vars [OF vars_newPromise kept_getAuthModule_from])

lemma kept_getAnalyticsModule: "kept s (snd (getAnalyticsModule s))"
  by (simp add: getAnalyticsModule_def split_def Let_def)
     (rule kept_step_vars [OF vars_newPromise kept_getAnalyticsModule_from])

lemma kept_after_newPromise:
  "kept (snd (newPromise s)) s2 \<Longrightarrow> kept s s2"
  by (rule kept_step_vars [OF vars_newPromise])

lemma kept_getAuth: "kept s (snd (getAuth s))"
  by (simp add: getAuth_def split_def Let_def)
     (rule kept_after_newPromise, rule kept_then_vars [OF kept_getAuthModule], rule vars_on_settled)

lemma kept_getProvider: "kept s (snd (getProvider provider s))"
  by (simp add: getProvider_def split_def Let_def)
     (rule kept_after_newPromise, rule kept_then_vars [OF kept_getAuthModule], rule vars_on_settled)

lemma kept_getCredential: "kept s (snd (getCredential provider tok s))"
  by (simp add: getCredential_def split_def Let_def)
     (rule kept_after_newPromise, rule kept_then_vars [OF kept_getAuthModule], rule vars_on_settled)

lemma kept_getUserToken: "kept s (snd (getUserToken s))"
  by (simp add: getUserToken_def split_def Let_def)
     (rule kept_after_newPromise, rule kept_then_vars [OF kept_getAuthModule], rule vars_on_settled)

lemma kept_getCurrentUser: "kept s (snd (getCurrentUser s))"
proof -
  let ?s2 = "snd (newPromise (snd (newPromise s)))"
  have "kept ?s2 (snd (getAuth ?s2))"
    by (rule kept_getAuth)
  then have a: "kept s (snd (getAuth ?s2))"
    by (rule kept_after_newPromise [OF kept_after_newPromise])
  have "kept s (snd (newPromise (snd (getAuth ?s2))))"
    by (rule kept_then_vars [OF a vars_newPromise])
  then have "kept s (on_settled a k (snd (newPromise (snd (getAuth ?s2)))))" for a k
    by (rule kept_then_vars [OF _ vars_on_settled])
  then have "kept s (on_settled u k' (on_settled a k (snd (newPromise (snd (getAuth ?s2))))))"
    for a k u k'
    by (rule kept_then_vars [OF _ vars_on_settled])
  then show ?thesis
    by (simp add: getCurrentUser_def split_def Let_def)
qed

lemma kept_analyticsLogger: "kept s (analyticsLogger logType logObj s)"
proof (cases "NODE_ENV s \<noteq> ''production''")
  case True
  then show ?thesis
    by (simp add: analyticsLogger_def kept_refl)
next
  case False
  have "kept s (snd (newPromise (snd (getAnalyticsModule s))))"
    by (rule kept_then_vars [OF kept_getAnalyticsModule vars_newPromise])
  then have "kept s (snd (newPromise (on_settled (fst (getAnalyticsModule s))
     (K_logEvent (fst (newPromise (snd (getAnalyticsModule s)))) logType logObj)
     (snd (newPromise (snd (getAnalyticsModule s)))))))"
    by (rule kept_then_vars [OF kept_then_vars [OF _ vars_on_settled] vars_newPromise])
  then show ?thesis
    using False
    by (simp add: analyticsLogger_def split_def Let_def)
       (rule kept_then_vars [OF _ vars_on_settled], assumption)
qed

lemma kept_do_call: "kept s (do_call c s)"
  by (cases c)
     (simp_all add: kept_makeFirebaseActive kept_makeAnalyticsActive kept_getAuthModule
        kept_getAnalyticsModule kept_getAuth kept_getProvider kept_getCredential
        kept_getCurrentUser kept_getUserToken kept_analyticsLogger)

lemma kept_authStateCallback: "kept s (authStateCallback usr u s)"
  by (simp add: authStateCallback_def kept_def settle_def)

lemma kept_fold:
  assumes "\<And>x s. kept s (f x s)"
  shows "kept s (fold f xs s)"
proof (induction xs arbitrary: s)
  case Nil
  show ?case by (simp add: kept_refl)
next
  case (Cons x xs)
  show ?case
    using kept_trans [OF assms Cons] by simp
qed

lemma kept_authStateChanged: "kept s (authStateChanged usr s)"
proof -
  have "kept (s\<lparr>currentUser := usr\<rparr>)
          (fold (authStateCallback usr) (subscriptions s) (s\<lparr>currentUser := usr\<rparr>))"
    by (rule kept_fold) (rule kept_authStateCallback)
  then show ?thesis
    by (simp add: authStateChanged_def kept_def)
qed

lemma kept_authStateError: "kept s (authStateError e s)"
  unfolding authStateError_def
  by (rule kept_fold) (simp add: kept_vars vars_settle)

lemma kept_resume: "kept s (resume k res s)"
proof (cases k)
  case (K_getAuthModule r)
  then show ?thesis
    by (cases res) (simp_all add: kept_getAuthModule_from kept_vars vars_settle)
next
  case (K_getAnalyticsModule r)
  then show ?thesis
    by (cases res) (simp_all add: kept_getAnalyticsModule_from kept_vars vars_settle)
next
  case (K_subscribe u d)
  then show ?thesis
    by (cases res) (simp_all add: kept_def settle_def)
next
  case (K_logEvent d logType logObj)
  then show ?thesis
    by (cases res) (simp_all add: kept_def settle_def split: option.splits)
next
  case (K_catch c)
  then show ?thesis
    by (cases res) (simp_all add: kept_def settle_def)
next
  case (K_appImported p d)
  then show ?thesis
    by (cases res) (simp_all add: kept_def settle_def displayConsole_def Let_def)
next
  case (K_getUserToken_module r)
  then show ?thesis
    by (cases res)
       (auto simp: kept_vars vars_simps split_def Let_def split: option.splits)
qed (cases res; simp add: kept_vars vars_simps split_def Let_def split: sum.splits)+

lemma kept_tick: "kept s (tick s)"
proof (cases "microtasks s")
  case Nil
  then show ?thesis by (simp add: tick_def kept_refl)
next
  case (Cons a rest)
  obtain k res where a: "a = (k, res)" by (cases a)
  have "kept (s\<lparr>microtasks := rest\<rparr>) (resume k res (s\<lparr>microtasks := rest\<rparr>))"
    by (rule kept_resume)
  then show ?thesis
    using Cons a by (simp add: tick_def kept_def)
qed

lemma kept_settle: "kept s (settle p r s)"
  by (rule kept_vars) (rule vars_settle)

lemma kept_step: "kept s (step e s)"
proof (cases e)
  case (UserStoreChanged st)
  then show ?thesis by (simp add: kept_def)
next
  case (AnalyticsFault f)
  then show ?thesis by (simp add: kept_def)
qed (auto simp: kept_do_call kept_tick kept_authStateChanged kept_authStateError
       kept_settle kept_refl split: list.splits)

lemma kept_exec: "kept s (exec es s)"
proof (induction es arbitrary: s)
  case Nil
  show ?case by (simp add: kept_refl)
next
  case (Cons e es)
  show ?case
    using kept_trans [OF kept_step Cons] by simp
qed


subsection \<open>Subscriptions once the user has loaded\<close>

lemma view_newPromise [simp]: "view (snd (newPromise s)) = view s"
  by (simp add: view_def subscribing_def waiting_def newPromise_def)

lemma view_enqueue [simp]: "\<not> is_subscribe k \<Longrightarrow> view (enqueue k r s) = view s"
  by (simp add: view_def subscribing_def waiting_def enqueue_def)

lemma view_on_settled [simp]: "\<not> is_subscribe k \<Longrightarrow> view (on_settled p k s) = view s"
  by (simp add: on_settled_def split: pstate.splits)
     (simp add: view_def subscribing_def waiting_def)

lemma view_await_slot [simp]: "\<not> is_subscribe k \<Longrightarrow> view (await_slot sl k s) = view s"
  by (simp add: await_slot_def split: option.splits)

lemma list_ex_settle:
  "list_ex P (map snd (filter (\<lambda>(q, k). q \<noteq> p) rs) @ ms @ map fst (map (\<lambda>(q, k). (k, r)) (filter (\<lambda>(q, k). q = p) rs)))
   = list_ex P (map snd rs @ ms)"
  by (induction rs) (auto simp: list_ex_iff)

lemma view_settle [simp]: "view (settle p r s) = view s"
  using list_ex_settle [of is_subscribe p "reactions s" "map fst (microtasks s)" r]
  by (simp add: view_def subscribing_def waiting_def settle_def)

lemma view_dyn_import [simp]: "view (snd (dyn_import m s)) = view s"
  by (simp add: view_def subscribing_def waiting_def dyn_import_def newPromise_def)

lemma view_displayConsole [simp]: "view (displayConsole a b s) = view s"
  by (simp add: view_def subscribing_def waiting_def displayConsole_def)

lemma view_EventBus_on [simp]: "view (EventBus_on n l b s) = view s"
  by (simp add: view_def subscribing_def waiting_def EventBus_on_def)

lemma view_invoke [simp]: "view (invoke l s) = view s"
  by (cases l) (simp_all add: split_def Let_def)

lemma view_fold_invoke [simp]: "view (fold (\<lambda>(n, l, once). invoke l) ls s) = view s"
  by (induction ls arbitrary: s) (simp_all add: split_def)

lemma view_updates [simp]:
  "view (s\<lparr>firebaseApp := a\<rparr>) = view s"
  "view (s\<lparr>authModule := a\<rparr>) = view s"
  "view (s\<lparr>analyticsModule := a\<rparr>) = view s"
  "view (s\<lparr>listeners := ls\<rparr>) = view s"
  "view (s\<lparr>apps := ap\<rparr>) = view s"
  "view (s\<lparr>analyticsCalls := ac\<rparr>) = view s"
  "view (s\<lparr>console := c\<rparr>) = view s"
  "view (s\<lparr>userStore := st\<rparr>) = view s"
  "view (s\<lparr>analyticsFault := f\<rparr>) = view s"
  "view (s\<lparr>currentUser := usr\<rparr>) = view s"
  "view (s\<lparr>subscriptions := sb\<rparr>) = view s"
  "view (s\<lparr>idTokenRequests := ts\<rparr>) = view s"
  by (simp_all add: view_def subscribing_def waiting_def)

lemma view_EventBus_emit [simp]: "view (EventBus_emit n s) = view s"
  by (simp add: EventBus_emit_def Let_def)

lemma view_initializeApp [simp]: "view (snd (initializeApp s)) = view s"
  by (simp add: initializeApp_def split_def Let_def)

lemma view_loadFirebaseAuth [simp]: "view (snd (loadFirebaseAuth s)) = view s"
  by (simp add: loadFirebaseAuth_def split_def Let_def)

lemma view_loadFirebaseAnalytics [simp]: "view (snd (loadFirebaseAnalytics s)) = view s"
  by (simp add: loadFirebaseAnalytics_def split_def Let_def)

lemma view_getIdToken [simp]: "view (snd (getIdToken s)) = view s"
  by (simp add: getIdToken_def split_def Let_def)

lemma view_makeFirebaseActive [simp]: "view (makeFirebaseActive s) = view s"
  by (simp add: makeFirebaseActive_def split_def Let_def)

lemma view_makeAnalyticsActive [simp]: "view (makeAnalyticsActive s) = view s"
  by (simp add: makeAnalyticsActive_def split_def Let_def)

lemma view_getAuthModule_from [simp]: "view (getAuthModule_from resumed r s) = view s"
proof (induction resumed r s rule: getAuthModule_from.induct)
  case (1 resumed r s)
  show ?case
  proof (cases "\<not> resumed \<and> firebaseApp s = None")
    case True
    then show ?thesis
      by (subst getAuthModule_from.simps) (simp add: split_def Let_def)
  next
    case False
    show ?thesis
    proof (cases "authModule s")
      case (Some q)
      then show ?thesis
        using False by (subst getAuthModule_from.simps) auto
    next
      case None
      let ?s2 = "(snd (loadFirebaseAuth s))\<lparr>authModule := Some (fst (loadFirebaseAuth s))\<rparr>"
      let ?s3 = "snd (newPromise ?s2)"
      have "view (getAuthModule_from False (fst (newPromise ?s2)) ?s3) = view ?s3"
        using False None by (intro "1.IH") (auto simp: prod_eq_iff)
      then show ?thesis
        using False None
        by (subst getAuthModule_from.simps) (auto simp: split_def Let_def)
    qed
  qed
qed

lemma view_getAnalyticsModule_from [simp]: "view (getAnalyticsModule_from resumed r s) = view s"
proof (induction resumed r s rule: getAnalyticsModule_from.induct)
  case (1 resumed r s)
  show ?case
  proof (cases "\<not> resumed \<and> firebaseApp s = None")
    case True
    then show ?thesis
      by (subst getAnalyticsModule_from.simps) (simp add: split_def Let_def)
  next
    case False
    show ?thesis
    proof (cases "analyticsModule s")
      case (Some q)
      then show ?thesis
        using False by (subst getAnalyticsModule_from.simps) auto
    next
      case None
      let ?s2 = "(snd (loadFirebaseAnalytics s))\<lparr>analyticsModule := Some (fst (loadFirebaseAnalytics s))\<rparr>"
      let ?s3 = "snd (newPromise ?s2)"
      have "view (getAnalyticsModule_from False (fst (newPromise ?s2)) ?s3) = view ?s3"
        using False None by (intro "1.IH") (auto simp: prod_eq_iff)
      then show ?thesis
        using False None
        by (subst getAnalyticsModule_from.simps) (auto simp: split_def Let_def)
    qed
  qed
qed

lemma view_getAuthModule [simp]: "view (snd (getAuthModule s)) = view s"
  by (simp add: getAuthModule_def split_def Let_def)

lemma view_getAnalyticsModule [simp]: "view (snd (getAnalyticsModule s)) = view s"
  by (simp add: getAnalyticsModule_def split_def Let_def)

lemma view_getAuth [simp]: "view (snd (getAuth s)) = view s"
  by (simp add: getAuth_def split_def Let_def)

lemma view_getProvider [simp]: "view (snd (getProvider provider s)) = view s"
  by (simp add: getProvider_def split_def Let_def)

lemma view_getCredential [simp]: "view (snd (getCredential provider tok s)) = view s"
  by (simp add: getCredential_def split_def Let_def)

lemma view_getUserToken [simp]: "view (snd (getUserToken s)) = view s"
  by (simp add: getUserToken_def split_def Let_def)

lemma view_analyticsLogger [simp]: "view (analyticsLogger logType logObj s) = view s"
  by (simp add: analyticsLogger_def split_def Let_def)







lemma view_fold_settle [simp]: "view (fold (\<lambda>u. settle u r) us s) = view s"
  by (induction us arbitrary: s) simp_all



subsection \<open>Consumers once the auth module has loaded\<close>

lemma filter_allocated_ne:
  "list_all (\<lambda>(p, k). p < (n::nat)) rs \<Longrightarrow> n \<le> m \<Longrightarrow> filter (\<lambda>(q, k). q \<noteq> m) rs = rs"
  by (induction rs) auto

lemma filter_allocated_eq:
  "list_all (\<lambda>(p, k). p < (n::nat)) rs \<Longrightarrow> n \<le> m \<Longrightarrow> filter (\<lambda>(q, k). q = m) rs = []"
  by (induction rs) auto

lemma getAuthModule_loaded:
  assumes "firebaseApp s \<noteq> None" "authModule s = Some q" "pstate_of s q = Fulfilled am"
  shows "getAuthModule s =
     (length (promises s),
      s\<lparr>promises := promises s @ [Pending],
        microtasks := microtasks s @ [(K_resolveWith (length (promises s)), Fulfilled am)]\<rparr>)"
proof -
  from assms(3) have q: "q < length (promises s)" "promises s ! q = Fulfilled am"
    by (auto simp: pstate_of_def split: if_splits)
  then have "pstate_of (s\<lparr>promises := promises s @ [Pending]\<rparr>) q = Fulfilled am"
    by (simp add: pstate_of_def nth_append)
  moreover from assms(1) obtain a where "firebaseApp s = Some a"
    by auto
  ultimately show ?thesis
    using assms(2)
    by (simp add: getAuthModule_def newPromise_def getAuthModule_from.simps on_settled_def
        enqueue_def)
qed

lemma await_getAuthModule:
  assumes "ready s am"
  shows "tick (on_settled (fst (getAuthModule (snd (newPromise s)))) k
                 (snd (getAuthModule (snd (newPromise s)))))
         = s\<lparr>promises := promises s @ [Pending, Fulfilled am],
              microtasks := [(k, Fulfilled am)]\<rparr>"
proof -
  from assms obtain q where q: "authModule s = Some q" "pstate_of s q = Fulfilled am"
    by (auto simp: ready_def split: option.splits)
  from assms have f: "firebaseApp s \<noteq> None" and m: "microtasks s = []"
    and r: "list_all (\<lambda>(p, k). p < length (promises s)) (reactions s)"
    by (auto simp: ready_def)
  let ?s1 = "snd (newPromise s)"
  from q have q1: "pstate_of ?s1 q = Fulfilled am"
    by (auto simp: pstate_of_def newPromise_def nth_append split: if_splits)
  have g: "getAuthModule ?s1 =
     (length (promises ?s1),
      ?s1\<lparr>promises := promises ?s1 @ [Pending],
        microtasks := microtasks ?s1 @ [(K_resolveWith (length (promises ?s1)), Fulfilled am)]\<rparr>)"
    using f q(1) q1 by (intro getAuthModule_loaded) (simp_all add: newPromise_def)
  show ?thesis
    unfolding g
    using m
    by (simp add: newPromise_def on_settled_def pstate_of_def tick_def settle_def nth_append
        list_update_append filter_allocated_ne [OF r] filter_allocated_eq [OF r])
qed

lemma getProvider_ready:
  assumes "ready s am"
  shows "fst (getProvider provider s) = length (promises s)"
    and "exec [Tick, Tick] (snd (getProvider provider s)) =
         s\<lparr>promises := promises s @
              [case getProvider_switch provider of
                 Inr v \<Rightarrow> Fulfilled (VProvider v) | Inl e \<Rightarrow> Rejected e,
               Fulfilled am]\<rparr>"
proof -
  show "fst (getProvider provider s) = length (promises s)"
    by (simp add: getProvider_def split_def Let_def newPromise_def)
  from assms have m: "microtasks s = []"
    and r: "list_all (\<lambda>(p, k). p < length (promises s)) (reactions s)"
    by (auto simp: ready_def)
  show "exec [Tick, Tick] (snd (getProvider provider s)) =
         s\<lparr>promises := promises s @
              [case getProvider_switch provider of
                 Inr v \<Rightarrow> Fulfilled (VProvider v) | Inl e \<Rightarrow> Rejected e,
               Fulfilled am]\<rparr>"
    using m
    by (simp add: getProvider_def split_def Let_def await_getAuthModule [OF assms])
       (simp add: tick_def newPromise_def settle_def nth_append list_update_append
          filter_allocated_ne [OF r] filter_allocated_eq [OF r] split: sum.splits)
qed


lemma ready_loaded:
  assumes "ready s am"
  obtains q where "firebaseApp s \<noteq> None" "authModule s = Some q" "pstate_of s q = Fulfilled am"
    "microtasks s = []" "list_all (\<lambda>(p, k). p < length (promises s)) (reactions s)"
  using assms by (auto simp: ready_def split: option.splits)

lemma pstate_of_append:
  "pstate_of s q = Fulfilled am \<Longrightarrow> pstate_of (s\<lparr>promises := promises s @ ps\<rparr>) q = Fulfilled am"
  by (auto simp: pstate_of_def nth_append split: if_splits)

lemma filter_allocated_fst:
  assumes "list_all (\<lambda>(p, k). p < (n::nat)) rs" "n \<le> m"
  shows "filter (\<lambda>p. fst p \<noteq> m) rs = rs" "filter (\<lambda>p. fst p = m) rs = []"
  using filter_allocated_ne [OF assms] filter_allocated_eq [OF assms]
  by (simp_all add: split_def)

lemma getCredential_ready:
  assumes "ready s am"
  shows "fst (getCredential provider tok s) = length (promises s)"
    and "exec [Tick, Tick] (snd (getCredential provider tok s)) =
         s\<lparr>promises := promises s @
              [case getCredential_switch provider tok of
                 Inr v \<Rightarrow> Fulfilled (VCredential v) | Inl e \<Rightarrow> Rejected e,
               Fulfilled am]\<rparr>"
proof -
  show "fst (getCredential provider tok s) = length (promises s)"
    by (simp add: getCredential_def split_def Let_def newPromise_def)
  from assms have m: "microtasks s = []"
    and r: "list_all (\<lambda>(p, k). p < length (promises s)) (reactions s)"
    by (auto simp: ready_def)
  show "exec [Tick, Tick] (snd (getCredential provider tok s)) =
         s\<lparr>promises := promises s @
              [case getCredential_switch provider tok of
                 Inr v \<Rightarrow> Fulfilled (VCredential v) | Inl e \<Rightarrow> Rejected e,
               Fulfilled am]\<rparr>"
    using m
    by (simp add: getCredential_def split_def Let_def await_getAuthModule [OF assms])
       (simp add: tick_def newPromise_def settle_def nth_append list_update_append
          filter_allocated_ne [OF r] filter_allocated_eq [OF r] split: sum.splits)
qed


lemma getAuth_loaded:
  assumes "firebaseApp s \<noteq> None" "authModule s = Some q" "pstate_of s q = Fulfilled am"
  shows "getAuth s =
     (length (promises s),
      s\<lparr>promises := promises s @ [Pending, Pending],
        reactions := reactions s @ [(Suc (length (promises s)), K_getAuth (length (promises s)))],
        microtasks := microtasks s @ [(K_resolveWith (Suc (length (promises s))), Fulfilled am)]\<rparr>)"
proof -
  let ?s1 = "s\<lparr>promises := promises s @ [Pending]\<rparr>"
  have g: "getAuthModule ?s1 =
     (length (promises ?s1),
      ?s1\<lparr>promises := promises ?s1 @ [Pending],
        microtasks := microtasks ?s1 @ [(K_resolveWith (length (promises ?s1)), Fulfilled am)]\<rparr>)"
    using assms
    by (intro getAuthModule_loaded) (auto simp: pstate_of_def nth_append split: if_splits)
  show ?thesis
    by (simp add: getAuth_def newPromise_def g)
       (simp add: on_settled_def pstate_of_def nth_append)
qed

lemma getUserToken_ready:
  assumes "ready s am"
  shows "fst (getUserToken s) = length (promises s)"
    and "\<not> authenticatedState (userStore s) \<Longrightarrow>
         exec [Tick, Tick] (snd (getUserToken s)) =
         s\<lparr>promises := promises s @ [Fulfilled (VString (userToken (userStore s))), Fulfilled am]\<rparr>"
    and "authenticatedState (userStore s) \<Longrightarrow> currentUser s = None \<Longrightarrow>
         exec [Tick, Tick, Tick] (snd (getUserToken s)) =
         s\<lparr>promises := promises s @ [Fulfilled (VString (userToken (userStore s))), Fulfilled am]\<rparr>"
    and "authenticatedState (userStore s) \<Longrightarrow> currentUser s = Some usr \<Longrightarrow>
         exec [Tick, Tick] (snd (getUserToken s)) =
         s\<lparr>promises := promises s @ [Pending, Fulfilled am, Pending],
           reactions := reactions s @
             [(Suc (Suc (length (promises s))), K_getUserToken_idToken (length (promises s)))],
           idTokenRequests := idTokenRequests s @ [Suc (Suc (length (promises s)))]\<rparr>"
    and "authenticatedState (userStore s) \<Longrightarrow> currentUser s = Some usr \<Longrightarrow>
         exec [Tick, Tick, IdTokenResolved (Suc (Suc (length (promises s)))) tok, Tick]
           (snd (getUserToken s)) =
         s\<lparr>promises := promises s @
             [Fulfilled (VString (userToken (userStore s))), Fulfilled am, Fulfilled (VString tok)],
           idTokenRequests := idTokenRequests s @ [Suc (Suc (length (promises s)))]\<rparr>"
    and "authenticatedState (userStore s) \<Longrightarrow> currentUser s = Some usr \<Longrightarrow>
         exec [Tick, Tick, IdTokenRejected (Suc (Suc (length (promises s)))) e, Tick]
           (snd (getUserToken s)) =
         s\<lparr>promises := promises s @ [Rejected e, Fulfilled am, Rejected e],
           idTokenRequests := idTokenRequests s @ [Suc (Suc (length (promises s)))]\<rparr>"
proof -
  from assms have m: "microtasks s = []"
    and r: "list_all (\<lambda>(p, k). p < length (promises s)) (reactions s)"
    by (auto simp: ready_def)
  note ev = tick_def newPromise_def settle_def nth_append list_update_append enqueue_def
    getIdToken_def on_settled_def pstate_of_def split_def Let_def
    filter_allocated_fst [OF r]
  show "fst (getUserToken s) = length (promises s)"
    by (simp add: getUserToken_def split_def Let_def newPromise_def)
  show "\<not> authenticatedState (userStore s) \<Longrightarrow>
         exec [Tick, Tick] (snd (getUserToken s)) =
         s\<lparr>promises := promises s @ [Fulfilled (VString (userToken (userStore s))), Fulfilled am]\<rparr>"
    using m
    by (simp add: getUserToken_def split_def Let_def await_getAuthModule [OF assms])
       (simp add: ev)
  show "authenticatedState (userStore s) \<Longrightarrow> currentUser s = None \<Longrightarrow>
         exec [Tick, Tick, Tick] (snd (getUserToken s)) =
         s\<lparr>promises := promises s @ [Fulfilled (VString (userToken (userStore s))), Fulfilled am]\<rparr>"
    using m
    by (simp add: getUserToken_def split_def Let_def await_getAuthModule [OF assms])
       (simp add: ev)
  show "authenticatedState (userStore s) \<Longrightarrow> currentUser s = Some usr \<Longrightarrow>
         exec [Tick, Tick] (snd (getUserToken s)) =
         s\<lparr>promises := promises s @ [Pending, Fulfilled am, Pending],
           reactions := reactions s @
             [(Suc (Suc (length (promises s))), K_getUserToken_idToken (length (promises s)))],
           idTokenRequests := idTokenRequests s @ [Suc (Suc (length (promises s)))]\<rparr>"
    using m
    by (simp add: getUserToken_def split_def Let_def await_getAuthModule [OF assms])
       (simp add: ev)
  show "authenticatedState (userStore s) \<Longrightarrow> currentUser s = Some usr \<Longrightarrow>
         exec [Tick, Tick, IdTokenResolved (Suc (Suc (length (promises s)))) tok, Tick]
           (snd (getUserToken s)) =
         s\<lparr>promises := promises s @
             [Fulfilled (VString (userToken (userStore s))), Fulfilled am, Fulfilled (VString tok)],
           idTokenRequests := idTokenRequests s @ [Suc (Suc (length (promises s)))]\<rparr>"
    using m
    by (simp add: getUserToken_def split_def Let_def await_getAuthModule [OF assms])
       (simp add: ev)
  show "authenticatedState (userStore s) \<Longrightarrow> currentUser s = Some usr \<Longrightarrow>
         exec [Tick, Tick, IdTokenRejected (Suc (Suc (length (promises s)))) e, Tick]
           (snd (getUserToken s)) =
         s\<lparr>promises := promises s @ [Rejected e, Fulfilled am, Rejected e],
           idTokenRequests := idTokenRequests s @ [Suc (Suc (length (promises s)))]\<rparr>"
    using m
    by (simp add: getUserToken_def split_def Let_def await_getAuthModule [OF assms])
       (simp add: ev)
qed


lemma getCurrentUser_loaded:
  assumes "firebaseApp s \<noteq> None" "authModule s = Some q" "pstate_of s q = Fulfilled am"
  shows "getCurrentUser s =
     (length (promises s),
      s\<lparr>promises := promises s @ [Pending, Pending, Pending, Pending, Pending],
        reactions := reactions s @
          [(length (promises s) + 3, K_getAuth (length (promises s) + 2)),
           (length (promises s) + 2,
            if userLoaded s
            then K_currentUser (length (promises s) + 1) (length (promises s) + 4)
            else K_subscribe (length (promises s) + 1) (length (promises s) + 4)),
           (length (promises s) + 1, K_resolveWith (length (promises s)))],
        microtasks := microtasks s @
          [(K_resolveWith (length (promises s) + 3), Fulfilled am)]\<rparr>)"
proof -
  let ?s2 = "s\<lparr>promises := promises s @ [Pending, Pending]\<rparr>"
  have g: "getAuth ?s2 =
     (length (promises ?s2),
      ?s2\<lparr>promises := promises ?s2 @ [Pending, Pending],
        reactions := reactions ?s2 @ [(Suc (length (promises ?s2)), K_getAuth (length (promises ?s2)))],
        microtasks := microtasks ?s2 @ [(K_resolveWith (Suc (length (promises ?s2))), Fulfilled am)]\<rparr>)"
    using assms
    by (intro getAuth_loaded) (auto simp: pstate_of_def nth_append split: if_splits)
  show ?thesis
    by (simp add: getCurrentUser_def newPromise_def g)
       (simp add: on_settled_def pstate_of_def nth_append)
qed

lemma getCurrentUser_first:
  assumes "ready s am" "\<not> userLoaded s" "subscriptions s = []"
  shows "exec [Tick, Tick, Tick] (snd (getCurrentUser s)) =
         s\<lparr>promises := promises s @
             [Pending, Pending, Fulfilled VAuth, Fulfilled am, Fulfilled VUndefined],
           reactions := reactions s @ [(length (promises s) + 1, K_resolveWith (length (promises s)))],
           subscriptions := [length (promises s) + 1],
           subscribeCalls := Suc (subscribeCalls s)\<rparr>"
    and "exec [Tick, Tick, Tick, AuthStateChanged usr, Tick] (snd (getCurrentUser s)) =
         s\<lparr>promises := promises s @
             [Fulfilled (VUser usr), Fulfilled (VUser usr), Fulfilled VAuth, Fulfilled am,
              Fulfilled VUndefined],
           userLoaded := True,
           currentUser := usr,
           subscribeCalls := Suc (subscribeCalls s)\<rparr>"
proof -
  from assms(1) obtain q where l: "firebaseApp s \<noteq> None" "authModule s = Some q"
    "pstate_of s q = Fulfilled am" and m: "microtasks s = []"
    and r: "list_all (\<lambda>(p, k). p < length (promises s)) (reactions s)"
    by (rule ready_loaded)
  note ev = tick_def settle_def nth_append list_update_append authStateChanged_def
    authStateCallback_def filter_allocated_ne [OF r] filter_allocated_eq [OF r]
  show "exec [Tick, Tick, Tick] (snd (getCurrentUser s)) =
         s\<lparr>promises := promises s @
             [Pending, Pending, Fulfilled VAuth, Fulfilled am, Fulfilled VUndefined],
           reactions := reactions s @ [(length (promises s) + 1, K_resolveWith (length (promises s)))],
           subscriptions := [length (promises s) + 1],
           subscribeCalls := Suc (subscribeCalls s)\<rparr>"
    using m assms(2,3) by (simp add: getCurrentUser_loaded [OF l] ev)
  show "exec [Tick, Tick, Tick, AuthStateChanged usr, Tick] (snd (getCurrentUser s)) =
         s\<lparr>promises := promises s @
             [Fulfilled (VUser usr), Fulfilled (VUser usr), Fulfilled VAuth, Fulfilled am,
              Fulfilled VUndefined],
           userLoaded := True,
           currentUser := usr,
           subscribeCalls := Suc (subscribeCalls s)\<rparr>"
    using m assms(2,3) by (simp add: getCurrentUser_loaded [OF l] ev)
qed



lemmas run_defs =
  init_def tick_def pstate_of_def newPromise_def enqueue_def on_settled_def await_slot_def
  settle_def dyn_import_def displayConsole_def EventBus_on_def EventBus_emit_def
  initializeApp_def makeFirebaseActive_def loadFirebaseAuth_def loadFirebaseAnalytics_def
  makeAnalyticsActive_def getAuthModule_from.simps getAuthModule_def
  getAnalyticsModule_from.simps getAnalyticsModule_def getAuth_def getProvider_def
  getCredential_def getCurrentUser_def authStateCallback_def authStateChanged_def
  authStateError_def getIdToken_def getUserToken_def analyticsLogger_def Let_def split_def
  firebaseConfig.truncate_def

lemma loaded_state:
  "loaded =
     \<lparr>firebaseApp = Some 1, authModule = Some 4, analyticsModule = None, userLoaded = False,
      promises =
        [Fulfilled (VModule ''firebase/auth''),
         Fulfilled (VApp (firebaseConfig.truncate example_config)),
         Fulfilled (VModule ''firebase/app''), Fulfilled VUndefined,
         Fulfilled (VModule ''firebase/auth''), Fulfilled (VModule ''firebase/auth''),
         Fulfilled (VModule ''firebase/auth'')],
      reactions = [], microtasks = [], listeners = [],
      moduleImports = [(''firebase/app'', 2), (''firebase/auth'', 6)],
      apps = [firebaseConfig.truncate example_config],
      currentUser = None, subscriptions = [], subscribeCalls = 0, idTokenRequests = [],
      userStore = example_store, analyticsCalls = [], analyticsFault = None,
      console = [DisplayConsole ''Firebase resolved'' ''firebaseAuth/initializeApp''],
      runtimeConfig = example_config, NODE_ENV = ''production''\<rparr>"
  by (simp add: loaded_def start_def run_defs)

lemma ready_loaded_example: "ready loaded (VModule ''firebase/auth'')"
  by (simp add: loaded_state ready_def pstate_of_def)

lemma idle_ticks: "microtasks s = [] \<Longrightarrow> exec (replicate n Tick) s = s"
  by (induction n) (simp_all add: tick_def)

text \<open>
  Claim C3. \<open>getProvider\<close> maps \<open>google\<close>, \<open>facebook\<close> and \<open>github\<close> to
  three different provider instances and \<open>getCredential\<close> maps them to the
  credentials of these providers; for every other string both throw the
  \<open>Unknown provider\<close> error. Once the auth module has loaded, the promise that either
  call returns is fulfilled with the provider or credential, or rejected with that error.
\<close>

theorem provider_switch:
  "getProvider_switch ''google'' = Inr GoogleAuthProvider \<and>
   getProvider_switch ''facebook'' = Inr FacebookAuthProvider \<and>
   getProvider_switch ''github'' = Inr GithubAuthProvider \<and>
   getCredential_switch ''google'' tok = Inr (Credential GoogleAuthProvider tok) \<and>
   getCredential_switch ''facebook'' tok = Inr (Credential FacebookAuthProvider tok) \<and>
   getCredential_switch ''github'' tok = Inr (Credential GithubAuthProvider tok) \<and>
   (provider \<notin> {''google'', ''facebook'', ''github''} \<longrightarrow>
      getProvider_switch provider = Inl (unknownProvider provider) \<and>
      getCredential_switch provider tok = Inl (unknownProvider provider)) \<and>
   (ready s am \<longrightarrow>
      pstate_of (exec [Tick, Tick] (snd (getProvider provider s))) (fst (getProvider provider s)) =
        (case getProvider_switch provider of
           Inr v \<Rightarrow> Fulfilled (VProvider v)
         | Inl e \<Rightarrow> Rejected e) \<and>
      pstate_of (exec [Tick, Tick] (snd (getCredential provider tok s)))
          (fst (getCredential provider tok s)) =
        (case getCredential_switch provider tok of
           Inr v \<Rightarrow> Fulfilled (VCredential v)
         | Inl e \<Rightarrow> Rejected e))"
proof -
  have "pstate_of (exec [Tick, Tick] (snd (getProvider provider s))) (fst (getProvider provider s)) =
        (case getProvider_switch provider of
           Inr v \<Rightarrow> Fulfilled (VProvider v)
         | Inl e \<Rightarrow> Rejected e)" if "ready s am"
    unfolding getProvider_ready [OF that] by (simp add: pstate_of_def)
  moreover
  have "pstate_of (exec [Tick, Tick] (snd (getCredential provider tok s)))
          (fst (getCredential provider tok s)) =
        (case getCredential_switch provider tok of
           Inr v \<Rightarrow> Fulfilled (VCredential v)
         | Inl e \<Rightarrow> Rejected e)" if "ready s am"
    unfolding getCredential_ready [OF that] by (simp add: pstate_of_def)
  ultimately show ?thesis
    by (simp add: getProvider_switch_def getCredential_switch_def)
qed

theorem provider_switch_witness:
  "''twitter'' \<notin> {''google'', ''facebook'', ''github''} \<and>
   ready loaded (VModule ''firebase/auth'') \<and>
   getProvider_switch ''twitter'' = Inl (unknownProvider ''twitter'') \<and>
   pstate_of (exec [Tick, Tick] (snd (getProvider ''twitter'' loaded)))
     (fst (getProvider ''twitter'' loaded)) = Rejected (unknownProvider ''twitter'') \<and>
   pstate_of (exec [Tick, Tick] (snd (getCredential ''twitter'' ''t'' loaded)))
     (fst (getCredential ''twitter'' ''t'' loaded)) = Rejected (unknownProvider ''twitter'') \<and>
   pstate_of (exec [Tick, Tick] (snd (getProvider ''github'' loaded)))
     (fst (getProvider ''github'' loaded)) = Fulfilled (VProvider GithubAuthProvider)"
  using provider_switch [of "''t''" "''twitter''" loaded "VModule ''firebase/auth''"]
        provider_switch [of "''t''" "''github''" loaded "VModule ''firebase/auth''"]
        ready_loaded_example
  by (simp add: getProvider_switch_def)

lemma ready_signed_in: "ready signed_in (VModule ''firebase/auth'')"
  by (simp add: signed_in_def loaded_state ready_def pstate_of_def authStateChanged_def)

lemma ready_signed_out: "ready signed_out (VModule ''firebase/auth'')"
  by (simp add: signed_out_def loaded_state ready_def pstate_of_def)

text \<open>
  Claim C10. Once the auth module has loaded, \<open>getUserToken()\<close> resolves with the
  token cached in the user store, whatever the store holds: when the store reports nobody
  authenticated, without asking the provider; when it reports an authenticated user and
  the provider has no current user, likewise; and when the provider has a current user,
  after one id-token request, whose answer \<open>tok\<close> is dropped.
\<close>

theorem getUserToken_returns_store_token:
  "ready s am \<longrightarrow>
     (\<not> authenticatedState (userStore s) \<longrightarrow>
        pstate_of (exec [Tick, Tick] (snd (getUserToken s))) (fst (getUserToken s)) =
          Fulfilled (VString (userToken (userStore s))) \<and>
        idTokenRequests (exec [Tick, Tick] (snd (getUserToken s))) = idTokenRequests s) \<and>
     (authenticatedState (userStore s) \<and> currentUser s = None \<longrightarrow>
        pstate_of (exec [Tick, Tick, Tick] (snd (getUserToken s))) (fst (getUserToken s)) =
          Fulfilled (VString (userToken (userStore s))) \<and>
        idTokenRequests (exec [Tick, Tick, Tick] (snd (getUserToken s))) = idTokenRequests s) \<and>
     (authenticatedState (userStore s) \<and> currentUser s \<noteq> None \<longrightarrow>
        idTokenRequests (exec [Tick, Tick] (snd (getUserToken s))) =
          idTokenRequests s @ [fst (getUserToken s) + 2] \<and>
        pstate_of (exec [Tick, Tick] (snd (getUserToken s))) (fst (getUserToken s)) = Pending \<and>
        pstate_of (exec [Tick, Tick, IdTokenResolved (fst (getUserToken s) + 2) tok, Tick]
                     (snd (getUserToken s))) (fst (getUserToken s)) =
          Fulfilled (VString (userToken (userStore s))))"
proof (intro impI conjI)
  assume r: "ready s am"
  note t = getUserToken_ready [OF r]
  {
    assume a: "\<not> authenticatedState (userStore s)"
    show "pstate_of (exec [Tick, Tick] (snd (getUserToken s))) (fst (getUserToken s)) =
          Fulfilled (VString (userToken (userStore s)))"
      unfolding t(1) t(2) [OF a] by (simp add: pstate_of_def)
    show "idTokenRequests (exec [Tick, Tick] (snd (getUserToken s))) = idTokenRequests s"
      unfolding t(2) [OF a] by simp
  }
  {
    assume a: "authenticatedState (userStore s) \<and> currentUser s = None"
    then have a1: "authenticatedState (userStore s)" and a2: "currentUser s = None"
      by simp_all
    show "pstate_of (exec [Tick, Tick, Tick] (snd (getUserToken s))) (fst (getUserToken s)) =
          Fulfilled (VString (userToken (userStore s)))"
      unfolding t(1) t(3) [OF a1 a2] by (simp add: pstate_of_def)
    show "idTokenRequests (exec [Tick, Tick, Tick] (snd (getUserToken s))) = idTokenRequests s"
      unfolding t(3) [OF a1 a2] by simp
  }
  {
    assume a: "authenticatedState (userStore s) \<and> currentUser s \<noteq> None"
    then obtain usr where a1: "authenticatedState (userStore s)" and a2: "currentUser s = Some usr"
      by auto
    show "idTokenRequests (exec [Tick, Tick] (snd (getUserToken s))) =
          idTokenRequests s @ [fst (getUserToken s) + 2]"
      unfolding t(1) t(4) [OF a1 a2] by simp
    show "pstate_of (exec [Tick, Tick] (snd (getUserToken s))) (fst (getUserToken s)) = Pending"
      unfolding t(1) t(4) [OF a1 a2] by (simp add: pstate_of_def)
    have "fst (getUserToken s) + 2 = Suc (Suc (length (promises s)))"
      by (simp add: t(1))
    then show "pstate_of (exec [Tick, Tick, IdTokenResolved (fst (getUserToken s) + 2) tok, Tick]
                     (snd (getUserToken s))) (fst (getUserToken s)) =
          Fulfilled (VString (userToken (userStore s)))"
      unfolding t(1) using t(5) [OF a1 a2, of tok] by (simp add: pstate_of_def)
  }
qed

theorem getUserToken_returns_store_token_witness:
  "ready signed_out (VModule ''firebase/auth'') \<and>
   \<not> authenticatedState (userStore signed_out) \<and>
   pstate_of (exec [Tick, Tick] (snd (getUserToken signed_out))) (fst (getUserToken signed_out)) =
     Fulfilled (VString ''stale'') \<and>
   ready loaded (VModule ''firebase/auth'') \<and>
   authenticatedState (userStore loaded) \<and> currentUser loaded = None \<and>
   pstate_of (exec [Tick, Tick, Tick] (snd (getUserToken loaded))) (fst (getUserToken loaded)) =
     Fulfilled (VString ''cached'') \<and>
   ready signed_in (VModule ''firebase/auth'') \<and>
   authenticatedState (userStore signed_in) \<and> currentUser signed_in \<noteq> None \<and>
   pstate_of (exec [Tick, Tick, IdTokenResolved (fst (getUserToken signed_in) + 2) ''fresh'', Tick]
                (snd (getUserToken signed_in))) (fst (getUserToken signed_in)) =
     Fulfilled (VString ''cached'')"
proof -
  have a: "\<not> authenticatedState (userStore signed_out)"
    "userToken (userStore signed_out) = ''stale''"
    by (simp_all add: signed_out_def loaded_state)
  have b: "authenticatedState (userStore loaded)" "currentUser loaded = None"
    "userToken (userStore loaded) = ''cached''"
    by (simp_all add: loaded_state example_store_def)
  have c: "authenticatedState (userStore signed_in)" "currentUser signed_in \<noteq> None"
    "userToken (userStore signed_in) = ''cached''"
    by (simp_all add: signed_in_def loaded_state authStateChanged_def example_store_def)
  show ?thesis
    using getUserToken_returns_store_token [of signed_out "VModule ''firebase/auth''"]
          getUserToken_returns_store_token [of loaded "VModule ''firebase/auth''"]
          getUserToken_returns_store_token [of signed_in "VModule ''firebase/auth''" "''fresh''"]
          ready_signed_out ready_loaded_example ready_signed_in a b c
    by (simp del: exec.simps)
qed

subsection \<open>The current user\<close>



subsection \<open>The auth module before and after activation\<close>





subsection \<open>Activating twice, and the order of the two activations\<close>

text \<open>
  Claim C4, at the input on which the code fails it. Two calls of
  \<open>makeFirebaseActive\<close> begin one import of the application module; two calls of
  \<open>makeAnalyticsActive\<close> begin two imports of the analytics module, one for each
  signal, because the listener of \<open>loadFirebaseAnalytics\<close> is persistent.
\<close>

theorem makeAnalyticsActive_twice_imports_twice:
  "moduleImports (exec [Call MakeFirebaseActive, Call MakeFirebaseActive] (init cfg mode st)) =
     [(''firebase/app'', 1)] \<and>
   moduleImports (exec [Call MakeAnalyticsActive, Call MakeAnalyticsActive, Tick, Tick]
                    (init cfg mode st)) =
     [(''firebase/analytics'', 3), (''firebase/analytics'', 4)]"
  by (simp add: run_defs)

text \<open>
  Claim C7, at the input on which the code fails it. When \<open>makeAnalyticsActive\<close> is
  called first, the listener awaits an app promise that is still \<open>null\<close>, so the
  import of the analytics module begins while the app promise is unset and no
  application has been initialised.
\<close>

theorem analytics_import_before_app:
  "moduleImports (exec [Call MakeAnalyticsActive, Tick] (init cfg mode st)) =
     [(''firebase/analytics'', 2)] \<and>
   firebaseApp (exec [Call MakeAnalyticsActive, Tick] (init cfg mode st)) = None \<and>
   apps (exec [Call MakeAnalyticsActive, Tick] (init cfg mode st)) = []"
  by (simp add: run_defs)

subsection \<open>Analytics logging\<close>

lemma analyticsLogger_outside_production:
  "NODE_ENV s \<noteq> ''production'' \<Longrightarrow> analyticsLogger logType logObj s = s"
  by (simp add: analyticsLogger_def)

text \<open>A failure of the logging call itself reaches the \<open>catch\<close> and the console.\<close>

lemma analytics_log_failure_caught:
  "(let s = exec [AnalyticsFault (Some e), Call (AnalyticsLogger logType logObj),
                  Call MakeFirebaseActive, ImportLoaded 4, Tick, Tick, Call MakeAnalyticsActive,
                  Tick, ImportLoaded 9, Tick, Tick, Tick, Tick, Tick]
             (init cfg ''production'' st)
    in pstate_of s 2 = Rejected e \<and>
       pstate_of s 3 = Fulfilled VUndefined \<and>
       last (console s) = ConsoleLog couldnt_be_loaded e \<and>
       microtasks s = [])"
  by (simp add: run_defs)

text \<open>
  Claim C6, at the input on which the code fails it. In production mode, with a logging
  call waiting for the analytics module, the import of the analytics module is rejected
  with \<open>e\<close>. The rejection ends in the promise of the listener (8), which nothing
  handles; the analytics promise (6) and the promises of the logging call (0, 2, 3) stay
  pending, nothing is queued, the \<open>catch\<close> has not run and the console holds no line
  about the failure.
\<close>

theorem analytics_load_failure_not_logged:
  "(let s = exec [Call (AnalyticsLogger logType logObj), Call MakeFirebaseActive,
                  ImportLoaded 4, Tick, Tick, Call MakeAnalyticsActive, Tick,
                  ImportFailed 9 e, Tick]
             (init cfg ''production'' st)
    in moduleImports s = [(''firebase/app'', 4), (''firebase/analytics'', 9)] \<and>
       pstate_of s 9 = Rejected e \<and>
       pstate_of s 8 = Rejected e \<and>
       pstate_of s 6 = Pending \<and>
       pstate_of s 0 = Pending \<and> pstate_of s 2 = Pending \<and> pstate_of s 3 = Pending \<and>
       microtasks s = [] \<and>
       analyticsCalls s = [] \<and>
       console s = [DisplayConsole ''Firebase resolved'' ''firebaseAuth/initializeApp''])"
  by (simp add: run_defs)

subsection \<open>A slot is set once, to a new pending promise\<close>

lemma grow_refl: "grow s s"
  by (simp add: grow_def slot_ok_def)

lemma grow_same: "promises s' = promises s \<Longrightarrow> slots s' = slots s \<Longrightarrow> grow s s'"
  by (simp add: grow_def slot_ok_def slots_def)

lemma slot_ok_trans:
  assumes "slot_ok a a1 s s1" "slot_ok a1 a2 s1 s2"
    "length (promises s) \<le> length (promises s1)" "length (promises s1) \<le> length (promises s2)"
  shows "slot_ok a a2 s s2"
  using assms by (auto simp: slot_ok_def)

lemma grow_trans:
  assumes "grow s s1" "grow s1 s2"
  shows "grow s s2"
proof -
  from assms obtain ps1 ps2 where p: "promises s1 = promises s @ ps1" "list_all (\<lambda>x. x = Pending) ps1"
    "promises s2 = promises s1 @ ps2" "list_all (\<lambda>x. x = Pending) ps2"
    by (auto simp: grow_def)
  then have "promises s2 = promises s @ (ps1 @ ps2)" "list_all (\<lambda>x. x = Pending) (ps1 @ ps2)"
    by simp_all
  then have e: "\<exists>ps. promises s2 = promises s @ ps \<and> list_all (\<lambda>x. x = Pending) ps"
    by blast
  from p have l: "length (promises s) \<le> length (promises s1)"
    "length (promises s1) \<le> length (promises s2)"
    by simp_all
  from assms e show ?thesis
    unfolding grow_def by (auto intro: slot_ok_trans [OF _ _ l])
qed

lemma grow_newPromise: "grow s (snd (newPromise s))"
  by (simp add: grow_def slot_ok_def newPromise_def)

lemma grow_enqueue: "grow s (enqueue k r s)"
  by (simp add: grow_same slots_def enqueue_def)

lemma grow_on_settled: "grow s (on_settled p k s)"
  by (simp add: grow_same slots_def on_settled_def enqueue_def split: pstate.splits)

lemma grow_await_slot: "grow s (await_slot sl k s)"
  by (simp add: await_slot_def grow_enqueue grow_on_settled split: option.splits)

lemma grow_dyn_import: "grow s (snd (dyn_import m s))"
  by (simp add: grow_def slot_ok_def dyn_import_def newPromise_def)

lemma grow_EventBus_on: "grow s (EventBus_on n l b s)"
  by (simp add: grow_same slots_def EventBus_on_def)

lemma grow_invoke: "grow s (invoke l s)"
proof (cases l)
  case (L_resolveFirebase p)
  have "grow s (snd (newPromise (snd (dyn_import ''firebase/app'' s))))"
    by (rule grow_trans [OF grow_dyn_import grow_newPromise])
  then show ?thesis
    using L_resolveFirebase
    by (simp add: split_def Let_def) (erule grow_trans [OF _ grow_on_settled])
next
  case (L_resolveAnalytics p)
  then show ?thesis
    by (simp add: split_def Let_def) (rule grow_trans [OF grow_newPromise grow_await_slot])
qed

lemma grow_fold:
  assumes "\<And>x s. grow s (f x s)"
  shows "grow s (fold f xs s)"
proof (induction xs arbitrary: s)
  case Nil
  show ?case by (simp add: grow_refl)
next
  case (Cons x xs)
  show ?case
    using grow_trans [OF assms Cons] by simp
qed

lemma grow_EventBus_emit: "grow s (EventBus_emit n s)"
proof -
  have a: "grow s (s\<lparr>listeners := ls\<rparr>)" for ls
    by (simp add: grow_same slots_def)
  have "grow (s\<lparr>listeners := ls\<rparr>) (fold (\<lambda>(n, l, once). invoke l) cs (s\<lparr>listeners := ls\<rparr>))"
    for ls cs
    by (rule grow_fold) (simp add: split_def grow_invoke)
  from grow_trans [OF a this] show ?thesis
    by (simp add: EventBus_emit_def Let_def)
qed

lemma grow_initializeApp: "grow s (snd (initializeApp s))"
  by (simp add: initializeApp_def split_def Let_def)
     (rule grow_trans [OF grow_newPromise grow_EventBus_on])

lemma grow_loadFirebaseAuth: "grow s (snd (loadFirebaseAuth s))"
  by (simp add: loadFirebaseAuth_def split_def Let_def)
     (rule grow_trans [OF grow_newPromise grow_await_slot])

lemma grow_loadFirebaseAnalytics: "grow s (snd (loadFirebaseAnalytics s))"
  by (simp add: loadFirebaseAnalytics_def split_def Let_def)
     (rule grow_trans [OF grow_newPromise grow_EventBus_on])

lemma fresh_initializeApp:
  "length (promises s) \<le> fst (initializeApp s) \<and>
   fst (initializeApp s) < length (promises (snd (initializeApp s)))"
  by (simp add: initializeApp_def newPromise_def EventBus_on_def)

lemma fresh_loadFirebaseAuth:
  "length (promises s) \<le> fst (loadFirebaseAuth s) \<and>
   fst (loadFirebaseAuth s) < length (promises (snd (loadFirebaseAuth s)))"
  by (simp add: loadFirebaseAuth_def newPromise_def await_slot_def on_settled_def enqueue_def
      split: option.splits pstate.splits)

lemma fresh_loadFirebaseAnalytics:
  "length (promises s) \<le> fst (loadFirebaseAnalytics s) \<and>
   fst (loadFirebaseAnalytics s) < length (promises (snd (loadFirebaseAnalytics s)))"
  by (simp add: loadFirebaseAnalytics_def newPromise_def EventBus_on_def)

lemma grow_set_firebaseApp:
  assumes "grow s s1" "firebaseApp s = None" "length (promises s) \<le> p" "p < length (promises s1)"
  shows "grow s (s1\<lparr>firebaseApp := Some p\<rparr>)"
  using assms by (auto simp: grow_def slot_ok_def)

lemma grow_set_authModule:
  assumes "grow s s1" "authModule s = None" "length (promises s) \<le> p" "p < length (promises s1)"
  shows "grow s (s1\<lparr>authModule := Some p\<rparr>)"
  using assms by (auto simp: grow_def slot_ok_def)

lemma grow_set_analyticsModule:
  assumes "grow s s1" "analyticsModule s = None" "length (promises s) \<le> p" "p < length (promises s1)"
  shows "grow s (s1\<lparr>analyticsModule := Some p\<rparr>)"
  using assms by (auto simp: grow_def slot_ok_def)

lemma grow_makeFirebaseActive: "grow s (makeFirebaseActive s)"
proof (cases "firebaseApp s")
  case None
  have "grow s ((snd (initializeApp s))\<lparr>firebaseApp := Some (fst (initializeApp s))\<rparr>)"
    using grow_initializeApp None fresh_initializeApp
    by (intro grow_set_firebaseApp) auto
  from grow_trans [OF this grow_EventBus_emit] show ?thesis
    using None by (simp add: makeFirebaseActive_def split_def Let_def)
next
  case (Some p)
  then show ?thesis
    by (simp add: makeFirebaseActive_def grow_EventBus_emit)
qed

lemma grow_makeAnalyticsActive: "grow s (makeAnalyticsActive s)"
proof (cases "analyticsModule s")
  case None
  have "grow s ((snd (loadFirebaseAnalytics s))\<lparr>analyticsModule := Some (fst (loadFirebaseAnalytics s))\<rparr>)"
    using grow_loadFirebaseAnalytics None fresh_loadFirebaseAnalytics
    by (intro grow_set_analyticsModule) auto
  from grow_trans [OF this grow_EventBus_emit] show ?thesis
    using None by (simp add: makeAnalyticsActive_def split_def Let_def)
next
  case (Some p)
  then show ?thesis
    by (simp add: makeAnalyticsActive_def grow_EventBus_emit)
qed

lemma grow_getAuthModule_from: "grow s (getAuthModule_from resumed r s)"
proof (induction resumed r s rule: getAuthModule_from.induct)
  case (1 resumed r s)
  show ?case
  proof (cases "\<not> resumed \<and> firebaseApp s = None")
    case True
    have "grow s ((snd (initializeApp s))\<lparr>firebaseApp := Some (fst (initializeApp s))\<rparr>)"
      using grow_initializeApp True fresh_initializeApp
      by (intro grow_set_firebaseApp) auto
    from grow_trans [OF this grow_on_settled] show ?thesis
      using True
      by (subst getAuthModule_from.simps) (simp add: split_def Let_def)
  next
    case False
    show ?thesis
    proof (cases "authModule s")
      case (Some q)
      then show ?thesis
        using False by (subst getAuthModule_from.simps) (auto simp: grow_on_settled)
    next
      case None
      let ?s2 = "(snd (loadFirebaseAuth s))\<lparr>authModule := Some (fst (loadFirebaseAuth s))\<rparr>"
      let ?s3 = "snd (newPromise ?s2)"
      have a: "grow s ?s2"
        using grow_loadFirebaseAuth None fresh_loadFirebaseAuth
        by (intro grow_set_authModule) auto
      have b: "grow s ?s3"
        by (rule grow_trans [OF a grow_newPromise])
      have c: "grow ?s3 (getAuthModule_from False (fst (newPromise ?s2)) ?s3)"
        using False None by (intro "1.IH") (auto simp: prod_eq_iff)
      have "grow s (getAuthModule_from False (fst (newPromise ?s2)) ?s3)"
        by (rule grow_trans [OF b c])
      from grow_trans [OF this grow_on_settled] show ?thesis
        using False None
        by (subst getAuthModule_from.simps) (auto simp: split_def Let_def)
    qed
  qed
qed

lemma grow_getAnalyticsModule_from: "grow s (getAnalyticsModule_from resumed r s)"
proof (induction resumed r s rule: getAnalyticsModule_from.induct)
  case (1 resumed r s)
  show ?case
  proof (cases "\<not> resumed \<and> firebaseApp s = None")
    case True
    have "grow s ((snd (initializeApp s))\<lparr>firebaseApp := Some (fst (initializeApp s))\<rparr>)"
      using grow_initializeApp True fresh_initializeApp
      by (intro grow_set_firebaseApp) auto
    from grow_trans [OF this grow_on_settled] show ?thesis
      using True
      by (subst getAnalyticsModule_from.simps) (simp add: split_def Let_def)
  next
    case False
    show ?thesis
    proof (cases "analyticsModule s")
      case (Some q)
      then show ?thesis
        using False by (subst getAnalyticsModule_from.simps) (auto simp: grow_on_settled)
    next
      case None
      let ?s2 = "(snd (loadFirebaseAnalytics s))\<lparr>analyticsModule := Some (fst (loadFirebaseAnalytics s))\<rparr>"
      let ?s3 = "snd (newPromise ?s2)"
      have a: "grow s ?s2"
        using grow_loadFirebaseAnalytics None fresh_loadFirebaseAnalytics
        by (intro grow_set_analyticsModule) auto
      have b: "grow s ?s3"
        by (rule grow_trans [OF a grow_newPromise])
      have c: "grow ?s3 (getAnalyticsModule_from False (fst (newPromise ?s2)) ?s3)"
        using False None by (intro "1.IH") (auto simp: prod_eq_iff)
      have "grow s (getAnalyticsModule_from False (fst (newPromise ?s2)) ?s3)"
        by (rule grow_trans [OF b c])
      from grow_trans [OF this grow_on_settled] show ?thesis
        using False None
        by (subst getAnalyticsModule_from.simps) (auto simp: split_def Let_def)
    qed
  qed
qed

lemma grow_getAuthModule: "grow s (snd (getAuthModule s))"
  by (simp add: getAuthModule_def split_def Let_def)
     (rule grow_trans [OF grow_newPromise grow_getAuthModule_from])

lemma grow_getAnalyticsModule: "grow s (snd (getAnalyticsModule s))"
  by (simp add: getAnalyticsModule_def split_def Let_def)
     (rule grow_trans [OF grow_newPromise grow_getAnalyticsModule_from])

lemma grow_consumer:
  "grow s (on_settled (fst (getAuthModule (snd (newPromise s)))) k
             (snd (getAuthModule (snd (newPromise s)))))"
  by (rule grow_trans [OF grow_trans [OF grow_newPromise grow_getAuthModule] grow_on_settled])

lemma grow_getAuth: "grow s (snd (getAuth s))"
  by (simp add: getAuth_def split_def Let_def grow_consumer)

lemma grow_getProvider: "grow s (snd (getProvider provider s))"
  by (simp add: getProvider_def split_def Let_def grow_consumer)

lemma grow_getCredential: "grow s (snd (getCredential provider tok s))"
  by (simp add: getCredential_def split_def Let_def grow_consumer)

lemma grow_getUserToken: "grow s (snd (getUserToken s))"
  by (simp add: getUserToken_def split_def Let_def grow_consumer)

lemma grow_getCurrentUser: "grow s (snd (getCurrentUser s))"
proof -
  let ?s2 = "snd (newPromise (snd (newPromise s)))"
  have "grow s ?s2"
    by (rule grow_trans [OF grow_newPromise grow_newPromise])
  then have "grow s (snd (newPromise (snd (getAuth ?s2))))"
    by (rule grow_trans [OF grow_trans [OF _ grow_getAuth] grow_newPromise])
  then have "grow s (on_settled u k' (on_settled a k (snd (newPromise (snd (getAuth ?s2))))))"
    for a k u k'
    by (rule grow_trans [OF grow_trans [OF _ grow_on_settled] grow_on_settled])
  then show ?thesis
    by (simp add: getCurrentUser_def split_def Let_def)
qed

lemma grow_analyticsLogger: "grow s (analyticsLogger logType logObj s)"
proof (cases "NODE_ENV s \<noteq> ''production''")
  case True
  then show ?thesis
    by (simp add: analyticsLogger_def grow_refl)
next
  case False
  have "grow s (snd (newPromise (snd (getAnalyticsModule s))))"
    by (rule grow_trans [OF grow_getAnalyticsModule grow_newPromise])
  then have "grow s (on_settled d k' (snd (newPromise (on_settled m k
      (snd (newPromise (snd (getAnalyticsModule s))))))))" for m k d k'
    by (rule grow_trans [OF grow_trans [OF grow_trans [OF _ grow_on_settled] grow_newPromise]
          grow_on_settled])
  then show ?thesis
    using False by (simp add: analyticsLogger_def split_def Let_def)
qed

lemma grow_do_call: "grow s (do_call c s)"
  by (cases c)
     (simp_all add: grow_makeFirebaseActive grow_makeAnalyticsActive grow_getAuthModule
        grow_getAnalyticsModule grow_getAuth grow_getProvider grow_getCredential
        grow_getCurrentUser grow_getUserToken grow_analyticsLogger)

lemma slots_alt: "slots s = (case vars s of (a, b, c, d) \<Rightarrow> (a, b, c))"
  by (simp add: slots_def vars_def)

lemma slots_settle: "slots (settle p r s) = slots s"
  by (simp add: slots_def settle_def)

lemma vars_updates:
  "vars (s\<lparr>subscriptions := sb, subscribeCalls := n\<rparr>) = vars s"
  "vars (s\<lparr>analyticsCalls := ac\<rparr>) = vars s"
  "vars (s\<lparr>console := c\<rparr>) = vars s"
  "vars (s\<lparr>apps := ap\<rparr>) = vars s"
  by (simp_all add: vars_def)

lemma vars_resume:
  assumes "\<And>r. k \<noteq> K_getAuthModule r" "\<And>r. k \<noteq> K_getAnalyticsModule r"
  shows "vars (resume k res s) = vars s"
proof (cases k)
  case (K_getUserToken_module r)
  then show ?thesis
    by (cases res) (simp_all add: vars_simps split_def Let_def split: option.splits)
next
  case (K_logEvent d logType logObj)
  then show ?thesis
    by (cases res) (simp_all add: vars_simps vars_updates split: option.splits)
next
  case (K_getProvider r provider)
  then show ?thesis
    by (cases res) (simp_all add: vars_simps split: sum.splits)
next
  case (K_getCredential r provider tok)
  then show ?thesis
    by (cases res) (simp_all add: vars_simps split: sum.splits)
next
  case (K_getAuthModule r)
  with assms(1) [of r] show ?thesis by simp
next
  case (K_getAnalyticsModule r)
  with assms(2) [of r] show ?thesis by simp
next
  case (K_appImported p d)
  then show ?thesis
    by (cases res) (simp_all add: vars_simps vars_updates Let_def)
next
  case (K_loadFirebaseAuth_imported r)
  then show ?thesis
    by (simp add: vars_simps)
next
  case (K_loadFirebaseAuth_app r)
  then show ?thesis
    by (cases res) (simp_all add: vars_simps split_def Let_def)
next
  case (K_resolveAnalytics_app p lp)
  then show ?thesis
    by (cases res) (simp_all add: vars_simps split_def Let_def)
next
  case (K_resolveAnalytics_imported p lp)
  then show ?thesis
    by (cases res) (simp_all add: vars_simps Let_def)
next
  case (K_resolveWith r)
  then show ?thesis
    by (simp add: vars_simps)
next
  case (K_getAuth r)
  then show ?thesis
    by (cases res) (simp_all add: vars_simps)
next
  case (K_currentUser u d)
  then show ?thesis
    by (cases res) (simp_all add: vars_simps)
next
  case (K_subscribe u d)
  then show ?thesis
    by (cases res) (simp_all add: vars_simps vars_updates)
next
  case (K_getUserToken_idToken r)
  then show ?thesis
    by (cases res) (simp_all add: vars_simps)
next
  case (K_catch c)
  then show ?thesis
    by (cases res) (simp_all add: vars_simps vars_updates)
qed

lemma slots_resume:
  assumes "\<And>r. k \<noteq> K_getAuthModule r" "\<And>r. k \<noteq> K_getAnalyticsModule r"
  shows "slots (resume k res s) = slots s"
  by (simp add: slots_alt vars_resume [OF assms])

lemma grow_or_same_resume:
  "grow s (resume k res s) \<or> slots (resume k res s) = slots s"
proof (cases k)
  case (K_getAuthModule r)
  then show ?thesis
    by (cases res) (simp_all add: grow_getAuthModule_from slots_settle)
next
  case (K_getAnalyticsModule r)
  then show ?thesis
    by (cases res) (simp_all add: grow_getAnalyticsModule_from slots_settle)
qed (simp_all add: slots_resume slots_settle)

lemma slots_fold_settle: "slots (fold (\<lambda>u. settle u r) us s) = slots s"
  by (induction us arbitrary: s) (simp_all add: slots_settle)

lemma slots_fold_authStateCallback: "slots (fold (authStateCallback usr) us s) = slots s"
proof (induction us arbitrary: s)
  case Nil
  show ?case by simp
next
  case (Cons u us)
  have "slots (authStateCallback usr u s) = slots s"
    by (simp add: authStateCallback_def slots_def settle_def)
  with Cons show ?case by simp
qed

lemma grow_or_same_step: "grow s (step e s) \<or> slots (step e s) = slots s"
proof (cases e)
  case (Call c)
  then show ?thesis by (simp add: grow_do_call)
next
  case Tick
  show ?thesis
  proof (cases "microtasks s")
    case Nil
    then show ?thesis using Tick by (simp add: tick_def)
  next
    case (Cons a rest)
    obtain k res where a: "a = (k, res)" by (cases a)
    let ?s0 = "s\<lparr>microtasks := rest\<rparr>"
    have "grow ?s0 (resume k res ?s0) \<or> slots (resume k res ?s0) = slots ?s0"
      by (rule grow_or_same_resume)
    moreover have "grow s ?s0" "slots ?s0 = slots s"
      by (simp_all add: grow_same slots_def)
    ultimately have "grow s (resume k res ?s0) \<or> slots (resume k res ?s0) = slots s"
      using grow_trans [of s ?s0 "resume k res ?s0"] by auto
    then show ?thesis
      using Tick Cons a by (simp add: tick_def)
  qed
next
  case (AuthStateChanged usr)
  have "slots (fold (authStateCallback usr) (subscriptions s) (s\<lparr>currentUser := usr\<rparr>)) =
        slots (s\<lparr>currentUser := usr\<rparr>)"
    by (rule slots_fold_authStateCallback)
  then show ?thesis
    using AuthStateChanged by (simp add: authStateChanged_def slots_def)
next
  case (AuthStateError err)
  then show ?thesis by (simp add: authStateError_def slots_fold_settle)
next
  case (UserStoreChanged st)
  then show ?thesis by (simp add: slots_def)
next
  case (AnalyticsFault f)
  then show ?thesis by (simp add: slots_def)
qed (simp_all add: slots_settle split: list.splits)

lemma grow_pending:
  assumes "grow s s'" "length (promises s) \<le> p" "p < length (promises s')"
  shows "pstate_of s' p = Pending"
proof -
  from assms(1) obtain ps where ps: "promises s' = promises s @ ps" "list_all (\<lambda>x. x = Pending) ps"
    by (auto simp: grow_def)
  with assms(2,3) have "p - length (promises s) < length ps"
    by simp
  with ps(2) have "ps ! (p - length (promises s)) = Pending"
    by (simp add: list_all_length)
  with assms(2,3) ps(1) show ?thesis
    by (simp add: pstate_of_def nth_append)
qed

lemma newly_set_pending:
  assumes "grow s s' \<or> slots s' = slots s"
  shows "(firebaseApp s = None \<and> firebaseApp s' = Some p \<longrightarrow>
            length (promises s) \<le> p \<and> pstate_of s' p = Pending) \<and>
         (authModule s = None \<and> authModule s' = Some p \<longrightarrow>
            length (promises s) \<le> p \<and> pstate_of s' p = Pending) \<and>
         (analyticsModule s = None \<and> analyticsModule s' = Some p \<longrightarrow>
            length (promises s) \<le> p \<and> pstate_of s' p = Pending)"
  using assms
proof
  assume g: "grow s s'"
  then show ?thesis
    by (auto simp: grow_def slot_ok_def intro: grow_pending [OF g])
next
  assume "slots s' = slots s"
  then show ?thesis
    by (auto simp: slots_def)
qed

text \<open>
  Claim C9. Whatever happens, in any order: a slot of \<open>dataPromises\<close> that holds a
  promise holds that same promise ever after, and \<open>userLoaded\<close>, once true, stays
  true. And a step that sets an unset slot sets it to a promise created in that step,
  which is pending.
\<close>

theorem dataPromises_set_once:
  "((firebaseApp s = Some p \<longrightarrow> firebaseApp (exec es s) = Some p) \<and>
    (authModule s = Some p \<longrightarrow> authModule (exec es s) = Some p) \<and>
    (analyticsModule s = Some p \<longrightarrow> analyticsModule (exec es s) = Some p) \<and>
    (userLoaded s \<longrightarrow> userLoaded (exec es s)))
   \<and>
   ((firebaseApp s = None \<and> firebaseApp (step e s) = Some p \<longrightarrow>
       length (promises s) \<le> p \<and> pstate_of (step e s) p = Pending) \<and>
    (authModule s = None \<and> authModule (step e s) = Some p \<longrightarrow>
       length (promises s) \<le> p \<and> pstate_of (step e s) p = Pending) \<and>
    (analyticsModule s = None \<and> analyticsModule (step e s) = Some p \<longrightarrow>
       length (promises s) \<le> p \<and> pstate_of (step e s) p = Pending))"
  using kept_exec [of s es] newly_set_pending [OF grow_or_same_step, where s = s and p = p and e1 = e]
  by (simp add: kept_def)

theorem dataPromises_set_once_witness:
  "firebaseApp loaded = Some 1 \<and>
   firebaseApp (exec [Call MakeFirebaseActive, Call GetAnalyticsModule, Tick] loaded) = Some 1 \<and>
   authModule loaded = Some 4 \<and>
   authModule (exec [Call GetAuthModule, Call GetCurrentUser, Tick] loaded) = Some 4 \<and>
   analyticsModule (step (Call MakeAnalyticsActive) start) = Some 0 \<and>
   analyticsModule (exec [Call MakeAnalyticsActive, Call (AnalyticsLogger ''l'' \<lparr>description = ''d'', fatal = False\<rparr>), Tick]
      (step (Call MakeAnalyticsActive) start)) = Some 0 \<and>
   userLoaded user_loaded \<and>
   userLoaded (exec [AuthStateChanged None, Call GetCurrentUser, Tick] user_loaded) \<and>
   firebaseApp start = None \<and>
   firebaseApp (step (Call MakeFirebaseActive) start) = Some 0 \<and>
   pstate_of (step (Call MakeFirebaseActive) start) 0 = Pending \<and>
   authModule (step (Call MakeFirebaseActive) start) = None \<and>
   authModule (step (Call GetAuthModule) (step (Call MakeFirebaseActive) start)) = Some 4 \<and>
   pstate_of (step (Call GetAuthModule) (step (Call MakeFirebaseActive) start)) 4 = Pending \<and>
   analyticsModule start = None \<and>
   pstate_of (step (Call MakeAnalyticsActive) start) 0 = Pending"
proof -
  have a: "firebaseApp loaded = Some 1" "authModule loaded = Some 4"
    by (simp_all add: loaded_state)
  have b: "analyticsModule (step (Call MakeAnalyticsActive) start) = Some 0"
    "firebaseApp start = None" "analyticsModule start = None"
    "firebaseApp (step (Call MakeFirebaseActive) start) = Some 0"
    "authModule (step (Call MakeFirebaseActive) start) = None"
    "authModule (step (Call GetAuthModule) (step (Call MakeFirebaseActive) start)) = Some 4"
    by (simp_all add: start_def run_defs)
  have c: "userLoaded user_loaded"
    using getCurrentUser_first(2) [OF ready_loaded_example, of "Some (User ''u1'')"]
    by (simp add: user_loaded_def loaded_state)
  show ?thesis
    using a b c
      dataPromises_set_once [where s = loaded and p = 1
        and es = "[Call MakeFirebaseActive, Call GetAnalyticsModule, Tick]"]
      dataPromises_set_once [where s = loaded and p = 4
        and es = "[Call GetAuthModule, Call GetCurrentUser, Tick]"]
      dataPromises_set_once [where s = "step (Call MakeAnalyticsActive) start" and p = 0
        and es = "[Call MakeAnalyticsActive, Call (AnalyticsLogger ''l'' \<lparr>description = ''d'', fatal = False\<rparr>), Tick]"]
      dataPromises_set_once [where s = user_loaded
        and es = "[AuthStateChanged None, Call GetCurrentUser, Tick]"]
      dataPromises_set_once [where s = start and p = 0 and e = "Call MakeFirebaseActive"]
      dataPromises_set_once [where s = "step (Call MakeFirebaseActive) start" and p = 4
        and e = "Call GetAuthModule"]
      dataPromises_set_once [where s = start and p = 0 and e = "Call MakeAnalyticsActive"]
    by (simp del: exec.simps step.simps)
qed

end
